theory Spec2Isabelle
  imports Complex_Main "HOL-Library.Word"
begin

section \<open>Antialias.c: separable resampling of the imaging core\<close>

text \<open>
  The development embeds \<^verbatim>\<open>src/libImaging/Antialias.c\<close>: the four resampling
  kernels, the horizontal stretch \<^verbatim>\<open>ImagingStretchHorizaontal\<close> (planning pass and
  reduction loop) and the two-pass driver \<^verbatim>\<open>ImagingStretch\<close>.

  Values of the C types \<^verbatim>\<open>float\<close> and \<^verbatim>\<open>double\<close> are real numbers. Every operation
  whose C result type is \<^verbatim>\<open>float\<close> passes through \<open>to_float\<close>, every operation whose
  result type is \<^verbatim>\<open>double\<close> through \<open>to_double\<close>; the two rounding functions are
  the fields of an \<open>fpu\<close> record that the model takes as a parameter. Two instances
  are defined: \<open>exact_fpu\<close>, where nothing is rounded, and \<open>ieee_fpu\<close>, which rounds
  to 24 and 53 significant bits (nearest, ties to even). Infinities and NaN are not
  represented.
\<close>

subsection \<open>Floating-point environment\<close>

record fpu =
  to_float :: "real \<Rightarrow> real"
  to_double :: "real \<Rightarrow> real"

definition exact_fpu :: fpu where
  "exact_fpu = \<lparr>to_float = (\<lambda>r. r), to_double = (\<lambda>r. r)\<rparr>"

text \<open>
  Rounding to \<open>p\<close> significant bits, nearest with ties to even, with the smallest
  quantum \<open>2 ^ emin\<close> (gradual underflow). \<open>quantum_exp\<close> is the exponent \<open>e\<close> of
  the spacing \<open>2 ^ e\<close> of the representable numbers around a magnitude \<open>a\<close>. Magnitudes
  beyond the largest finite number are rounded as if the exponent had no upper limit.
  \<open>ieee_fpu\<close> is binary32 and binary64 arithmetic as a C compiler with
  \<^verbatim>\<open>FLT_EVAL_METHOD\<close> 0 uses it.
\<close>

definition round_half_even :: "real \<Rightarrow> int" where
  "round_half_even x =
     (let f = \<lfloor>x\<rfloor>; d = x - of_int f
      in if d < 1/2 then f else if d > 1/2 then f + 1 else if even f then f else f + 1)"

function grow :: "nat \<Rightarrow> real \<Rightarrow> int \<Rightarrow> int" where
  "grow p a e = (if 2 \<le> a \<and> 2 ^ p \<le> a then grow p (a / 2) (e + 1) else e)"
  by pat_completeness auto
termination
  by (relation "measure (\<lambda>(p, a, e). nat \<lceil>a\<rceil>)") (auto, linarith)

function shrink :: "nat \<Rightarrow> int \<Rightarrow> real \<Rightarrow> int \<Rightarrow> int" where
  "shrink p emin a e = (if a < 2 ^ (p - 1) \<and> emin < e then shrink p emin (a * 2) (e - 1) else e)"
  by pat_completeness auto
termination
  by (relation "measure (\<lambda>(p, emin, a, e). nat (e - emin))") auto

definition quantum_exp :: "nat \<Rightarrow> int \<Rightarrow> real \<Rightarrow> int" where
  "quantum_exp p emin a = (if 2 ^ p \<le> a then grow p a 0 else shrink p emin a 0)"

definition round_to :: "nat \<Rightarrow> int \<Rightarrow> real \<Rightarrow> real" where
  "round_to p emin r =
     (if r = 0 then 0
      else let e = quantum_exp p emin \<bar>r\<bar>;
               q = (if 0 \<le> e then 2 ^ nat e else 1 / 2 ^ nat (- e))
           in of_int (round_half_even (r / q)) * q)"

definition ieee_fpu :: fpu where
  "ieee_fpu = \<lparr>to_float = round_to 24 (- 149), to_double = round_to 53 (- 1074)\<rparr>"

declare grow.simps [simp del] shrink.simps [simp del]

text \<open>
  A value is represented exactly when neither rounding changes it. \<open>halves_exact fp n\<close>
  says that all the half-integers \<open>k / 2\<close> with \<open>- 1 \<le> k \<le> n\<close> are.
\<close>

definition representable :: "fpu \<Rightarrow> real \<Rightarrow> bool" where
  "representable fp r \<longleftrightarrow> to_float fp r = r \<and> to_double fp r = r"

definition halves_exact :: "fpu \<Rightarrow> int \<Rightarrow> bool" where
  "halves_exact fp n \<longleftrightarrow> (\<forall>k. - 1 \<le> k \<and> k \<le> n \<longrightarrow> representable fp (of_int k / 2))"

text \<open>The cast \<^verbatim>\<open>(int) r\<close> of a floating value truncates towards zero.\<close>

definition c_int :: "real \<Rightarrow> int" where
  "c_int r = (if 0 \<le> r then \<lfloor>r\<rfloor> else \<lceil>r\<rceil>)"

subsection \<open>Resampling filters\<close>

text \<open>\<^verbatim>\<open>struct filter { float (*filter)(float x); float support; }\<close>\<close>

record filter_desc =
  filterf :: "real \<Rightarrow> real"
  support :: real

definition sinc_filter :: "fpu \<Rightarrow> real \<Rightarrow> real" where
  "sinc_filter fp x =
     (if x = 0 then 1
      else let x1 = to_float fp (to_double fp (x * to_double fp pi))
           in to_float fp (to_double fp (to_double fp (sin x1) / x1)))"

definition antialias_filter :: "fpu \<Rightarrow> real \<Rightarrow> real" where
  "antialias_filter fp x =
     (if - 3 \<le> x \<and> x < 3
      then to_float fp (sinc_filter fp x * sinc_filter fp (to_float fp (x / 3)))
      else 0)"

definition ANTIALIAS :: "fpu \<Rightarrow> filter_desc" where
  "ANTIALIAS fp = \<lparr>filterf = antialias_filter fp, support = 3\<rparr>"

definition nearest_filter :: "fpu \<Rightarrow> real \<Rightarrow> real" where
  "nearest_filter fp x = (if - (1/2) \<le> x \<and> x < 1/2 then 1 else 0)"

definition NEAREST :: "fpu \<Rightarrow> filter_desc" where
  "NEAREST fp = \<lparr>filterf = nearest_filter fp, support = 1/2\<rparr>"

definition bilinear_filter :: "fpu \<Rightarrow> real \<Rightarrow> real" where
  "bilinear_filter fp x0 =
     (let x = (if x0 < 0 then - x0 else x0)
      in if x < 1 then to_float fp (to_double fp (1 - x)) else 0)"

definition BILINEAR :: "fpu \<Rightarrow> filter_desc" where
  "BILINEAR fp = \<lparr>filterf = bilinear_filter fp, support = 1\<rparr>"

text \<open>
  \<^verbatim>\<open>#define a -0.5\<close>: the first branch is evaluated in \<^verbatim>\<open>double\<close>, the second in
  \<^verbatim>\<open>float\<close> up to the final product with the \<^verbatim>\<open>double\<close> constant.
\<close>

definition bicubic_filter :: "fpu \<Rightarrow> real \<Rightarrow> real" where
  "bicubic_filter fp x0 =
     (let x = (if x0 < 0 then - x0 else x0);
          D = to_double fp;
          F = to_float fp
      in if x < 1
           then F (D (D (D (D (D ((- (1/2) + 2) * x) - (- (1/2) + 3)) * x) * x) + 1))
         else if x < 2
           then F (D (F (F (F (F (F (x - 5) * x) + 8) * x) - 4) * (- (1/2))))
         else 0)"

definition BICUBIC :: "fpu \<Rightarrow> filter_desc" where
  "BICUBIC fp = \<lparr>filterf = bicubic_filter fp, support = 2\<rparr>"

subsection \<open>Horizontal stretch: preparation and planning pass\<close>

text \<open>
  Lines 124--136: \<open>scale\<close>, \<open>filterscale\<close>, the widened \<open>support\<close> and \<open>kmax\<close>.
  For a destination of width 0 the C quotient is an infinity or a NaN; it is then used
  only for the size of the scratch buffers, since both loops over the output columns
  are empty.
\<close>

definition stretch_scale :: "fpu \<Rightarrow> int \<Rightarrow> int \<Rightarrow> real" where
  "stretch_scale fp in_xsize out_xsize =
     to_float fp (to_float fp (of_int in_xsize) / to_float fp (of_int out_xsize))"

definition stretch_filterscale :: "real \<Rightarrow> real" where
  "stretch_filterscale scale = (if scale < 1 then 1 else scale)"

definition stretch_support :: "fpu \<Rightarrow> filter_desc \<Rightarrow> real \<Rightarrow> real" where
  "stretch_support fp filterp filterscale = to_float fp (support filterp * filterscale)"

definition stretch_kmax :: "real \<Rightarrow> int" where
  "stretch_kmax supp = c_int (of_int \<lceil>supp\<rceil>) * 2 + 1"

text \<open>
  The inner loop of lines 160--164 (and again 186--190): the weights of the source
  columns \<open>x\<close> with \<^verbatim>\<open>(int) xmin <= x < (int) xmax\<close>, stored at \<^verbatim>\<open>k[x - (int) xmin]\<close>,
  and their running sum \<open>ww\<close>.
\<close>

definition weight :: "fpu \<Rightarrow> filter_desc \<Rightarrow> real \<Rightarrow> real \<Rightarrow> int \<Rightarrow> real" where
  "weight fp filterp center ss x =
     to_float fp
       (filterf filterp
          (to_float fp (to_double fp
             (to_double fp (to_float fp (to_float fp (of_int x) - center) + 1/2) * ss)))
        * ss)"

definition window :: "real \<Rightarrow> real \<Rightarrow> int list" where
  "window xmin xmax = [c_int xmin .. c_int xmax - 1]"

text \<open>The planning pass, lines 150--171, for one output column \<open>xx\<close>.\<close>

record coeffs =
  c_xmin :: real
  c_xmax :: real
  c_ww :: real
  c_k :: "real list"

definition plan_step ::
  "fpu \<Rightarrow> filter_desc \<Rightarrow> real \<Rightarrow> real \<Rightarrow> real \<Rightarrow> int \<Rightarrow> int \<Rightarrow> coeffs" where
  "plan_step fp filterp scale filterscale supp in_xsize xx =
     (let center = to_float fp (to_double fp (to_double fp (of_int xx + 1/2) * scale));
          ss = to_float fp (to_double fp (1 / filterscale));
          xmin0 = to_float fp (of_int \<lfloor>to_float fp (center - supp)\<rfloor>);
          xmin = (if xmin0 < 0 then 0 else xmin0);
          xmax0 = to_float fp (of_int \<lceil>to_float fp (center + supp)\<rceil>);
          xmax = (if xmax0 > to_float fp (of_int in_xsize)
                  then to_float fp (of_int in_xsize) else xmax0);
          k = map (weight fp filterp center ss) (window xmin xmax);
          ww0 = fold (\<lambda>x ww. to_float fp (ww + weight fp filterp center ss x))
                  (window xmin xmax) 0;
          ww = (if ww0 = 0 then 1 else to_float fp (to_double fp (1 / ww0)))
      in \<lparr>c_xmin = xmin, c_xmax = xmax, c_ww = ww, c_k = k\<rparr>)"

text \<open>
  The first part of the body of the reduction loop, lines 177--194. It is the same
  text as the planning pass, transcribed again since the C code computes it again.
  The weights are written to \<^verbatim>\<open>k\<close>, which still points at the last row of the
  planning table, and read back from there by the reductions below.
\<close>

definition stretch_step ::
  "fpu \<Rightarrow> filter_desc \<Rightarrow> real \<Rightarrow> real \<Rightarrow> real \<Rightarrow> int \<Rightarrow> int \<Rightarrow> coeffs" where
  "stretch_step fp filterp scale filterscale supp in_xsize xx =
     (let center = to_float fp (to_double fp (to_double fp (of_int xx + 1/2) * scale));
          ss = to_float fp (to_double fp (1 / filterscale));
          xmin0 = to_float fp (of_int \<lfloor>to_float fp (center - supp)\<rfloor>);
          xmin = (if xmin0 < 0 then 0 else xmin0);
          xmax0 = to_float fp (of_int \<lceil>to_float fp (center + supp)\<rceil>);
          xmax = (if xmax0 > to_float fp (of_int in_xsize)
                  then to_float fp (of_int in_xsize) else xmax0);
          k = map (\<lambda>x. weight fp filterp center ss x) (window xmin xmax);
          ww0 = fold (\<lambda>x ww. to_float fp (ww + weight fp filterp center ss x))
                  (window xmin xmax) 0;
          ww = (if ww0 = 0 then 1 else to_float fp (to_double fp (1 / ww0)))
      in \<lparr>c_xmin = xmin, c_xmax = xmax, c_ww = ww, c_k = k\<rparr>)"

subsection \<open>Images\<close>

text \<open>
  \<^verbatim>\<open>Imaging.h\<close> is not part of the sources. The tags it declares are modelled as
  datatypes whose last constructor stands for every value the \<^verbatim>\<open>switch\<close> statements
  send to \<^verbatim>\<open>default\<close>. Of the image structure the fields that \<^verbatim>\<open>Antialias.c\<close> uses are
  kept. \<open>image8\<close> is \<open>None\<close> for the null pointer. \<open>image_raw\<close> is \<^verbatim>\<open>char **image\<close>
  (four bytes per pixel), \<open>image32\<close> the rows read by \<^verbatim>\<open>IMAGING_PIXEL_I\<close> and
  \<open>image32f\<close> the same rows read as \<^verbatim>\<open>FLOAT32\<close> by \<^verbatim>\<open>IMAGING_PIXEL_F\<close>. The three
  views are separate fields: that they overlay one block of memory is not modelled, and
  neither is a source that is the same object as the destination. An access outside a
  row is undefined in C, while indexing and updating a list never fail: what is proved
  about a pixel is proved for a position inside the rows of the destination.
\<close>

datatype imaging_type =
  IMAGING_TYPE_UINT8 | IMAGING_TYPE_INT32 | IMAGING_TYPE_FLOAT32 | IMAGING_TYPE_SPECIAL

datatype transform =
  IMAGING_TRANSFORM_NEAREST | IMAGING_TRANSFORM_ANTIALIAS
  | IMAGING_TRANSFORM_BILINEAR | IMAGING_TRANSFORM_BICUBIC
  | IMAGING_TRANSFORM_OTHER int

record Imaging =
  mode :: string
  type :: imaging_type
  bands :: int
  xsize :: int
  ysize :: int
  image8 :: "8 word list list option"
  image32 :: "32 word list list"
  image32f :: "real list list"
  image_raw :: "8 word list list"

datatype error = ModeError | ValueError string | MemoryError

text \<open>The assignment \<^verbatim>\<open>im[y][x] = v\<close> on a list of rows.\<close>

definition put :: "'a list list \<Rightarrow> int \<Rightarrow> int \<Rightarrow> 'a \<Rightarrow> 'a list list" where
  "put rows y x v = rows[nat y := (rows ! nat y)[nat x := v]]"

text \<open>\<^verbatim>\<open>k[x - (int) xmin]\<close>\<close>

definition k_at :: "coeffs \<Rightarrow> int \<Rightarrow> real" where
  "k_at c x = c_k c ! nat (x - c_int (c_xmin c))"

subsection \<open>Reductions\<close>

text \<open>
  Lines 201--207 and 220--226: the bias \<^verbatim>\<open>ss = ss * ww + 0.5\<close> and the store of an
  8-bit pixel. The cast \<^verbatim>\<open>(UINT8) ss\<close> is the truncation reduced modulo 256.
\<close>

definition bias :: "fpu \<Rightarrow> real \<Rightarrow> real \<Rightarrow> real" where
  "bias fp ss ww = to_float fp (to_double fp (to_float fp (ss * ww) + 1/2))"

definition clip8 :: "real \<Rightarrow> 8 word" where
  "clip8 ss =
     (if ss < 1/2 then 0
      else if ss \<ge> 255 then 255
      else word_of_int (c_int ss))"

text \<open>Lines 198--200: the weighted sum of a row of \<open>image8\<close>.\<close>

definition sum8 :: "fpu \<Rightarrow> 8 word list \<Rightarrow> coeffs \<Rightarrow> real" where
  "sum8 fp row c =
     fold (\<lambda>x ss. to_float fp
             (ss + to_float fp (to_float fp (of_int (uint (row ! nat x))) * k_at c x)))
       (window (c_xmin c) (c_xmax c)) 0"

definition stretch8 ::
  "fpu \<Rightarrow> 8 word list list \<Rightarrow> coeffs \<Rightarrow> int \<Rightarrow> int \<Rightarrow> 8 word list list \<Rightarrow> 8 word list list" where
  "stretch8 fp src c out_ysize xx dst =
     fold (\<lambda>yy dst. put dst yy xx (clip8 (bias fp (sum8 fp (src ! nat yy) c) (c_ww c))))
       [0 .. out_ysize - 1] dst"

text \<open>
  Lines 213--228. The band loop \<^verbatim>\<open>for (b = 0; b < bands; b++)\<close> changes its own
  counter: \<^verbatim>\<open>if (imIn->bands == 2 && b) b = 3\<close>. \<open>lanes bands b\<close> is the list of lane
  indices the body runs with, from counter value \<open>b\<close> on.
\<close>

function lanes :: "int \<Rightarrow> int \<Rightarrow> int list" where
  "lanes nbands b =
     (if b < nbands
      then (let b' = (if nbands = 2 \<and> b \<noteq> 0 then 3 else b) in b' # lanes nbands (b' + 1))
      else [])"
  by pat_completeness auto
termination
  by (relation "measure (\<lambda>(nbands, b). nat (nbands - b))") (auto simp: Let_def)

declare lanes.simps [simp del]

definition sum_raw :: "fpu \<Rightarrow> 8 word list \<Rightarrow> int \<Rightarrow> coeffs \<Rightarrow> real" where
  "sum_raw fp row b c =
     fold (\<lambda>x ss. to_float fp
             (ss + to_float fp (to_float fp (of_int (uint (row ! nat (x * 4 + b)))) * k_at c x)))
       (window (c_xmin c) (c_xmax c)) 0"

definition stretch_raw ::
  "fpu \<Rightarrow> 8 word list list \<Rightarrow> int \<Rightarrow> coeffs \<Rightarrow> int \<Rightarrow> int \<Rightarrow> 8 word list list
     \<Rightarrow> 8 word list list" where
  "stretch_raw fp src nbands c out_ysize xx dst =
     fold (\<lambda>yy dst.
             fold (\<lambda>b dst. put dst yy (xx * 4 + b)
                     (clip8 (bias fp (sum_raw fp (src ! nat yy) b c) (c_ww c))))
               (lanes nbands 0) dst)
       [0 .. out_ysize - 1] dst"

text \<open>
  Lines 232--237. \<^verbatim>\<open>(int) ss * ww\<close> is \<^verbatim>\<open>((int) ss) * ww\<close>: the truncated sum goes back
  to \<^verbatim>\<open>float\<close>, is multiplied in \<^verbatim>\<open>float\<close>, and the store into the \<^verbatim>\<open>INT32\<close> pixel
  converts the product to an integer again. \<^verbatim>\<open>int\<close> and \<^verbatim>\<open>INT32\<close> have 32 bits. The
  conversion of a floating value truncates it when the truncated value is one of an
  \<^verbatim>\<open>int\<close> (\<open>int_range\<close>); for any other value it is undefined in C, and \<open>c_int32\<close>
  then gives what the conversion instruction of x86-64 (\<^verbatim>\<open>cvttss2si\<close>) gives,
  \<^verbatim>\<open>INT_MIN\<close>.
\<close>

definition sum32 :: "fpu \<Rightarrow> 32 word list \<Rightarrow> coeffs \<Rightarrow> real" where
  "sum32 fp row c =
     fold (\<lambda>x ss. to_float fp
             (ss + to_float fp (to_float fp (of_int (sint (row ! nat x))) * k_at c x)))
       (window (c_xmin c) (c_xmax c)) 0"

definition int_range :: "real \<Rightarrow> bool" where
  "int_range r \<longleftrightarrow> - (2 ^ 31) \<le> c_int r \<and> c_int r < 2 ^ 31"

definition c_int32 :: "real \<Rightarrow> int" where
  "c_int32 r = (if int_range r then c_int r else - (2 ^ 31))"

definition store32 :: "fpu \<Rightarrow> real \<Rightarrow> real \<Rightarrow> 32 word" where
  "store32 fp ss ww =
     word_of_int (c_int32 (to_float fp (to_float fp (of_int (c_int32 ss)) * ww)))"

definition stretch32 ::
  "fpu \<Rightarrow> 32 word list list \<Rightarrow> coeffs \<Rightarrow> int \<Rightarrow> int \<Rightarrow> 32 word list list
     \<Rightarrow> 32 word list list" where
  "stretch32 fp src c out_ysize xx dst =
     fold (\<lambda>yy dst. put dst yy xx (store32 fp (sum32 fp (src ! nat yy) c) (c_ww c)))
       [0 .. out_ysize - 1] dst"

text \<open>Lines 241--246.\<close>

definition sum32f :: "fpu \<Rightarrow> real list \<Rightarrow> coeffs \<Rightarrow> real" where
  "sum32f fp row c =
     fold (\<lambda>x ss. to_float fp (ss + to_float fp (row ! nat x * k_at c x)))
       (window (c_xmin c) (c_xmax c)) 0"

definition stretch32f ::
  "fpu \<Rightarrow> real list list \<Rightarrow> coeffs \<Rightarrow> int \<Rightarrow> int \<Rightarrow> real list list \<Rightarrow> real list list" where
  "stretch32f fp src c out_ysize xx dst =
     fold (\<lambda>yy dst. put dst yy xx (to_float fp (sum32f fp (src ! nat yy) c * c_ww c)))
       [0 .. out_ysize - 1] dst"

subsection \<open>The reduction loop\<close>

text \<open>
  Lines 195--251 for the output column \<open>xx\<close> with its coefficients \<open>c\<close>: the dispatch on
  the pixel format of the source. The stores go to the field of the destination with the
  same name; a destination whose \<open>image8\<close> is null while the source has one would be a
  null dereference in C and is left as it is here.
\<close>

definition reduce_column :: "fpu \<Rightarrow> Imaging \<Rightarrow> coeffs \<Rightarrow> int \<Rightarrow> Imaging \<Rightarrow> error + Imaging" where
  "reduce_column fp imIn c xx imOut =
     (case image8 imIn of
        Some src \<Rightarrow>
          Inr (imOut\<lparr>image8 := map_option (stretch8 fp src c (ysize imOut) xx) (image8 imOut)\<rparr>)
      | None \<Rightarrow>
          (case type imIn of
             IMAGING_TYPE_UINT8 \<Rightarrow>
               Inr (imOut\<lparr>image_raw :=
                      stretch_raw fp (image_raw imIn) (bands imIn) c (ysize imOut) xx
                        (image_raw imOut)\<rparr>)
           | IMAGING_TYPE_INT32 \<Rightarrow>
               Inr (imOut\<lparr>image32 :=
                      stretch32 fp (image32 imIn) c (ysize imOut) xx (image32 imOut)\<rparr>)
           | IMAGING_TYPE_FLOAT32 \<Rightarrow>
               Inr (imOut\<lparr>image32f :=
                      stretch32f fp (image32f imIn) c (ysize imOut) xx (image32f imOut)\<rparr>)
           | IMAGING_TYPE_SPECIAL \<Rightarrow> Inl ModeError))"

definition stretch_column ::
  "fpu \<Rightarrow> filter_desc \<Rightarrow> real \<Rightarrow> real \<Rightarrow> real \<Rightarrow> Imaging \<Rightarrow> int \<Rightarrow> Imaging \<Rightarrow> error + Imaging" where
  "stretch_column fp filterp scale filterscale supp imIn xx imOut =
     reduce_column fp imIn
       (stretch_step fp filterp scale filterscale supp (xsize imIn) xx) xx imOut"

text \<open>
  The loop of line 176. The destination is changed in place, and the \<^verbatim>\<open>default\<close> case
  returns out of the loop: a failure carries the error together with the destination as
  the columns before it left it.
\<close>

fun stretch_columns ::
  "(int \<Rightarrow> Imaging \<Rightarrow> error + Imaging) \<Rightarrow> int list \<Rightarrow> Imaging \<Rightarrow> (error \<times> Imaging) + Imaging" where
  "stretch_columns body [] imOut = Inr imOut"
| "stretch_columns body (xx # xxs) imOut =
     (case body xx imOut of
        Inl e \<Rightarrow> Inl (e, imOut)
      | Inr imOut' \<Rightarrow> stretch_columns body xxs imOut')"

subsection \<open>ImagingStretchHorizaontal\<close>

definition select_filter :: "fpu \<Rightarrow> transform \<Rightarrow> filter_desc option" where
  "select_filter fp f =
     (case f of
        IMAGING_TRANSFORM_NEAREST \<Rightarrow> Some (NEAREST fp)
      | IMAGING_TRANSFORM_ANTIALIAS \<Rightarrow> Some (ANTIALIAS fp)
      | IMAGING_TRANSFORM_BILINEAR \<Rightarrow> Some (BILINEAR fp)
      | IMAGING_TRANSFORM_BICUBIC \<Rightarrow> Some (BICUBIC fp)
      | IMAGING_TRANSFORM_OTHER _ \<Rightarrow> None)"

text \<open>The planning pass, lines 149--172: the tables \<^verbatim>\<open>kk\<close> and \<^verbatim>\<open>xbounds\<close>.\<close>

definition planning_pass ::
  "fpu \<Rightarrow> filter_desc \<Rightarrow> real \<Rightarrow> real \<Rightarrow> real \<Rightarrow> int \<Rightarrow> int \<Rightarrow> coeffs list" where
  "planning_pass fp filterp scale filterscale supp in_xsize out_xsize =
     map (plan_step fp filterp scale filterscale supp in_xsize) [0 .. out_xsize - 1]"

text \<open>
  The function. \<open>malloc_ok n\<close> tells whether \<^verbatim>\<open>malloc\<close> of \<open>n\<close> bytes succeeds
  (\<^verbatim>\<open>sizeof(float)\<close> is 4). The source and the destination are pointers, \<open>None\<close> when
  null. The tables of the planning pass are computed and not used. The result is
  \<open>Inr\<close> with the destination when the function returns \<^verbatim>\<open>imOut\<close>, and \<open>Inl\<close> with the
  error raised and the state of the destination when it returns null.
  \<^verbatim>\<open>ImagingSectionEnter\<close>, \<^verbatim>\<open>ImagingSectionLeave\<close> and \<^verbatim>\<open>free\<close> do not change the
  result and are left out.
\<close>

definition ImagingStretchHorizaontal ::
  "fpu \<Rightarrow> (int \<Rightarrow> bool) \<Rightarrow> Imaging option \<Rightarrow> Imaging option \<Rightarrow> transform
     \<Rightarrow> (error \<times> Imaging option) + Imaging" where
  "ImagingStretchHorizaontal fp malloc_ok imOutp imInp f =
     (case (imOutp, imInp) of
        (Some imOut, Some imIn) \<Rightarrow>
          if mode imIn \<noteq> mode imOut then Inl (ModeError, imOutp)
          else if ysize imOut \<noteq> ysize imIn
            then Inl (ValueError ''ImagingStretchHorizaontal requires equal heights'', imOutp)
          else (case select_filter fp f of
              None \<Rightarrow> Inl (ValueError ''unsupported resampling filter'', imOutp)
            | Some filterp \<Rightarrow>
                let scale = stretch_scale fp (xsize imIn) (xsize imOut);
                    filterscale = stretch_filterscale scale;
                    supp = stretch_support fp filterp filterscale;
                    kmax = stretch_kmax supp
                in if \<not> malloc_ok (xsize imOut * kmax * 4) then Inl (MemoryError, imOutp)
                   else if \<not> malloc_ok (xsize imOut * 3 * 4) then Inl (MemoryError, imOutp)
                   else
                     let kk = planning_pass fp filterp scale filterscale supp
                                (xsize imIn) (xsize imOut)
                     in (case stretch_columns
                                (stretch_column fp filterp scale filterscale supp imIn)
                                [0 .. xsize imOut - 1] imOut of
                           Inl (e, im) \<Rightarrow> Inl (e, Some im)
                         | Inr im \<Rightarrow> Inr im))
      | _ \<Rightarrow> Inl (ModeError, imOutp))"

text \<open>
  The coefficients that the body of the reduction loop computes for the output column
  \<open>xx\<close> of a call with source \<open>imIn\<close> and destination \<open>imOut\<close>, and those that
  the planning pass stores for it.
\<close>

definition column_coeffs :: "fpu \<Rightarrow> filter_desc \<Rightarrow> Imaging \<Rightarrow> Imaging \<Rightarrow> int \<Rightarrow> coeffs" where
  "column_coeffs fp filterp imIn imOut xx =
     (let scale = stretch_scale fp (xsize imIn) (xsize imOut);
          filterscale = stretch_filterscale scale;
          supp = stretch_support fp filterp filterscale
      in stretch_step fp filterp scale filterscale supp (xsize imIn) xx)"

definition planned_coeffs :: "fpu \<Rightarrow> filter_desc \<Rightarrow> Imaging \<Rightarrow> Imaging \<Rightarrow> int \<Rightarrow> coeffs" where
  "planned_coeffs fp filterp imIn imOut xx =
     (let scale = stretch_scale fp (xsize imIn) (xsize imOut);
          filterscale = stretch_filterscale scale;
          supp = stretch_support fp filterp filterscale
      in plan_step fp filterp scale filterscale supp (xsize imIn) xx)"

text \<open>
  The variant that the specification allows: the coefficients of the planning pass are
  kept, and the reduction of column \<open>xx\<close> takes them from the table instead of computing
  them again. Everything else is as in \<open>ImagingStretchHorizaontal\<close>.
\<close>

definition ImagingStretchHorizaontal_cached ::
  "fpu \<Rightarrow> (int \<Rightarrow> bool) \<Rightarrow> Imaging option \<Rightarrow> Imaging option \<Rightarrow> transform
     \<Rightarrow> (error \<times> Imaging option) + Imaging" where
  "ImagingStretchHorizaontal_cached fp malloc_ok imOutp imInp f =
     (case (imOutp, imInp) of
        (Some imOut, Some imIn) \<Rightarrow>
          if mode imIn \<noteq> mode imOut then Inl (ModeError, imOutp)
          else if ysize imOut \<noteq> ysize imIn
            then Inl (ValueError ''ImagingStretchHorizaontal requires equal heights'', imOutp)
          else (case select_filter fp f of
              None \<Rightarrow> Inl (ValueError ''unsupported resampling filter'', imOutp)
            | Some filterp \<Rightarrow>
                let scale = stretch_scale fp (xsize imIn) (xsize imOut);
                    filterscale = stretch_filterscale scale;
                    supp = stretch_support fp filterp filterscale;
                    kmax = stretch_kmax supp
                in if \<not> malloc_ok (xsize imOut * kmax * 4) then Inl (MemoryError, imOutp)
                   else if \<not> malloc_ok (xsize imOut * 3 * 4) then Inl (MemoryError, imOutp)
                   else
                     let kk = planning_pass fp filterp scale filterscale supp
                                (xsize imIn) (xsize imOut)
                     in (case stretch_columns
                                (\<lambda>xx imOut. reduce_column fp imIn (kk ! nat xx) xx imOut)
                                [0 .. xsize imOut - 1] imOut of
                           Inl (e, im) \<Rightarrow> Inl (e, Some im)
                         | Inr im \<Rightarrow> Inr im))
      | _ \<Rightarrow> Inl (ModeError, imOutp))"

subsection \<open>ImagingStretch\<close>

text \<open>
  \<^verbatim>\<open>ImagingNew\<close>, \<^verbatim>\<open>ImagingTranspose\<close> and \<^verbatim>\<open>ImagingDelete\<close> belong to other files.
  The first two are parameters of the model: \<open>ImagingNew mode xsize ysize\<close> gives a
  fresh image or the error it raised, \<open>ImagingTranspose imOut imIn\<close> the filled
  destination or its error.
  The function returns its result together with the calls it made, in order;
  \<open>EvDelete n\<close> is \<^verbatim>\<open>ImagingDelete(imTemp\<close>\<open>n\<close>\<^verbatim>\<open>)\<close>.
\<close>

datatype event =
  EvNew string int int | EvStretch | EvTranspose | EvDelete nat

definition ImagingStretch ::
  "fpu \<Rightarrow> (int \<Rightarrow> bool) \<Rightarrow> (string \<Rightarrow> int \<Rightarrow> int \<Rightarrow> error + Imaging)
     \<Rightarrow> (Imaging \<Rightarrow> Imaging \<Rightarrow> error + Imaging)
     \<Rightarrow> Imaging \<Rightarrow> Imaging \<Rightarrow> transform \<Rightarrow> (error + Imaging) \<times> event list" where
  "ImagingStretch fp malloc_ok ImagingNew ImagingTranspose imOut imIn f =
     (let xsz = xsize imOut; ysz = ysize imOut
      in if mode imIn = ''P'' \<or> mode imIn = ''1'' then (Inl ModeError, [])
         else
          (let l1 = [EvNew (mode imIn) xsz (ysize imIn)]
           in case ImagingNew (mode imIn) xsz (ysize imIn) of
                Inl e \<Rightarrow> (Inl e, l1)
              | Inr imTemp1 \<Rightarrow>
          (let l2 = l1 @ [EvStretch]
           in case ImagingStretchHorizaontal fp malloc_ok (Some imTemp1) (Some imIn) f of
                Inl (e, _) \<Rightarrow> (Inl e, l2 @ [EvDelete 1])
              | Inr imTemp1 \<Rightarrow>
          (let l3 = l2 @ [EvNew (mode imIn) (ysize imIn) xsz]
           in case ImagingNew (mode imIn) (ysize imIn) xsz of
                Inl e \<Rightarrow> (Inl e, l3 @ [EvDelete 1])
              | Inr imTemp2 \<Rightarrow>
          (let l4 = l3 @ [EvTranspose]
           in case ImagingTranspose imTemp2 imTemp1 of
                Inl e \<Rightarrow> (Inl e, l4 @ [EvDelete 1, EvDelete 2])
              | Inr imTemp2 \<Rightarrow>
          (let l5 = l4 @ [EvDelete 1, EvNew (mode imIn) ysz xsz]
           in case ImagingNew (mode imIn) ysz xsz of
                Inl e \<Rightarrow> (Inl e, l5 @ [EvDelete 2])
              | Inr imTemp3 \<Rightarrow>
          (let l6 = l5 @ [EvStretch]
           in case ImagingStretchHorizaontal fp malloc_ok (Some imTemp3) (Some imTemp2) f of
                Inl (e, _) \<Rightarrow> (Inl e, l6 @ [EvDelete 2, EvDelete 3])
              | Inr imTemp3 \<Rightarrow>
          (let l7 = l6 @ [EvDelete 2, EvTranspose]
           in case ImagingTranspose imOut imTemp3 of
                Inl e \<Rightarrow> (Inl e, l7 @ [EvDelete 3])
              | Inr imOut' \<Rightarrow> (Inr imOut', l7 @ [EvDelete 3])))))))))"

subsection \<open>Example images\<close>

text \<open>An image header without pixel data, from which the examples below are built.\<close>

definition header :: "string \<Rightarrow> imaging_type \<Rightarrow> int \<Rightarrow> int \<Rightarrow> int \<Rightarrow> Imaging" where
  "header m t nbands w h =
     \<lparr>mode = m, type = t, bands = nbands, xsize = w, ysize = h,
      image8 = None, image32 = [], image32f = [], image_raw = []\<rparr>"

definition image_L :: "8 word list list \<Rightarrow> Imaging" where
  "image_L rows = (header ''L'' IMAGING_TYPE_UINT8 1 (int (length (hd rows))) (int (length rows)))
     \<lparr>image8 := Some rows\<rparr>"

definition image_I :: "32 word list list \<Rightarrow> Imaging" where
  "image_I rows = (header ''I'' IMAGING_TYPE_INT32 1 (int (length (hd rows))) (int (length rows)))
     \<lparr>image32 := rows\<rparr>"

definition image_F :: "real list list \<Rightarrow> Imaging" where
  "image_F rows = (header ''F'' IMAGING_TYPE_FLOAT32 1 (int (length (hd rows))) (int (length rows)))
     \<lparr>image32f := rows\<rparr>"

definition image_LA :: "8 word list list \<Rightarrow> Imaging" where
  "image_LA rows =
     (header ''LA'' IMAGING_TYPE_UINT8 2 (int (length (hd rows) div 4)) (int (length rows)))
     \<lparr>image_raw := rows\<rparr>"

section \<open>Properties\<close>

lemma to_float_exact [simp]: "to_float exact_fpu r = r"
  by (simp add: exact_fpu_def)

lemma to_double_exact [simp]: "to_double exact_fpu r = r"
  by (simp add: exact_fpu_def)

subsection \<open>The planned window\<close>

text \<open>
  In exact arithmetic, for all lengths, the window of the planning pass is
  \<open>xmin = max 0 \<lfloor>center - support\<rfloor>\<close>, \<open>xmax = min in_xsize \<lceil>center + support\<rceil>\<close>
  with \<open>center = (xx + 1/2) * in_xsize / out_xsize\<close>, and lies within the source.
\<close>

lemma planned_window_exact:
  assumes s: "0 \<le> support filterp" and i: "0 \<le> in_xsize" and o: "1 \<le> out_xsize"
    and x0: "0 \<le> xx" and x1: "xx < out_xsize"
  defines "scale \<equiv> stretch_scale exact_fpu in_xsize out_xsize"
  defines "supp \<equiv> stretch_support exact_fpu filterp (stretch_filterscale scale)"
  defines "center \<equiv> (of_int xx + 1/2) * (of_int in_xsize / of_int out_xsize)"
  defines "c \<equiv> plan_step exact_fpu filterp scale (stretch_filterscale scale) supp in_xsize xx"
  shows "c_xmin c = of_int (max 0 \<lfloor>center - supp\<rfloor>)"
    and "c_xmax c = of_int (min in_xsize \<lceil>center + supp\<rceil>)"
    and "0 \<le> c_xmin c" and "c_xmin c \<le> c_xmax c" and "c_xmax c \<le> of_int in_xsize"
proof -
  have sc: "scale = of_int in_xsize / of_int out_xsize"
    by (simp add: scale_def stretch_scale_def)
  have sc0: "0 \<le> scale" using i o by (simp add: sc)
  have fs: "1 \<le> stretch_filterscale scale" by (simp add: stretch_filterscale_def)
  have sp: "0 \<le> supp" using s fs by (simp add: supp_def stretch_support_def)
  have ce: "0 \<le> center" using sc0 x0 by (simp add: center_def sc[symmetric])
  have "of_int xx + 1/2 < (of_int out_xsize :: real)" using x1 by linarith
  then have "center \<le> of_int out_xsize * scale"
    unfolding center_def sc[symmetric] using sc0 by (intro mult_right_mono) auto
  then have ci: "center \<le> of_int in_xsize" using o by (simp add: sc)
  show a: "c_xmin c = of_int (max 0 \<lfloor>center - supp\<rfloor>)"
    by (simp add: c_def plan_step_def Let_def center_def sc max_def)
  show b: "c_xmax c = of_int (min in_xsize \<lceil>center + supp\<rceil>)"
    by (simp add: c_def plan_step_def Let_def center_def sc min_def)
  show "0 \<le> c_xmin c" by (simp add: a)
  have 1: "\<lfloor>center - supp\<rfloor> \<le> \<lceil>center + supp\<rceil>" using sp by linarith
  have 2: "\<lfloor>center - supp\<rfloor> \<le> in_xsize" using sp ci by linarith
  have 3: "0 \<le> \<lceil>center + supp\<rceil>" using sp ce by linarith
  show "c_xmin c \<le> c_xmax c" using 1 2 3 i by (simp add: a b)
  show "c_xmax c \<le> of_int in_xsize" by (simp add: b)
qed

text \<open>
  With any rounding the two clamps alone give \<open>0 \<le> xmin\<close> and
  \<open>xmax \<le> (float) in_xsize\<close>, in the planning pass and in the reduction loop.
\<close>

lemma window_clamped:
  "0 \<le> c_xmin (plan_step fp filterp scale filterscale supp in_xsize xx)"
  "c_xmax (plan_step fp filterp scale filterscale supp in_xsize xx)
     \<le> to_float fp (of_int in_xsize)"
  "0 \<le> c_xmin (stretch_step fp filterp scale filterscale supp in_xsize xx)"
  "c_xmax (stretch_step fp filterp scale filterscale supp in_xsize xx)
     \<le> to_float fp (of_int in_xsize)"
  by (simp_all add: plan_step_def stretch_step_def Let_def)

subsection \<open>Stores into a grid of pixels\<close>

lemma put_beyond: "length d \<le> nat y \<Longrightarrow> put d y x v = d"
  by (simp add: put_def list_update_beyond)

lemma map_length_put [simp]: "map length (put d y x v) = map length d"
proof (cases "nat y < length d")
  case True
  then show ?thesis by (simp add: put_def map_update list_update_same_conv)
next
  case False
  then show ?thesis by (simp add: put_beyond)
qed

lemma length_put [simp]: "length (put d y x v) = length d"
  by (simp add: put_def)

lemma length_nth_put [simp]: "length (put d y x v ! j) = length (d ! j)"
proof (cases "nat y < length d")
  case True
  then show ?thesis by (cases "j = nat y") (simp_all add: put_def)
next
  case False
  then show ?thesis by (simp add: put_beyond)
qed

lemma nth_put:
  "put d y x v ! j ! i =
     (if j = nat y \<and> j < length d \<and> i = nat x \<and> i < length (d ! j) then v else d ! j ! i)"
proof (cases "nat y < length d")
  case True
  then show ?thesis
    by (cases "j = nat y"; cases "i = nat x"; cases "nat x < length (d ! nat y)")
       (simp_all add: put_def list_update_beyond)
next
  case False
  then show ?thesis by (auto simp: put_beyond)
qed

lemma nat_pos_iff:
  assumes "0 < s" and "0 \<le> xx" and "0 \<le> b" and "b < int s"
  shows "i = nat (xx * int s + b) \<longleftrightarrow> int (i div s) = xx \<and> int (i mod s) = b"
proof
  assume "i = nat (xx * int s + b)"
  then have "int i = xx * int s + b" using assms by simp
  then have "int i div int s = xx" "int i mod int s = b" using assms by auto
  then show "int (i div s) = xx \<and> int (i mod s) = b" by (simp add: zdiv_int zmod_int)
next
  assume a: "int (i div s) = xx \<and> int (i mod s) = b"
  have "int i = int (i div s) * int s + int (i mod s)"
    by (metis div_mult_mod_eq of_nat_add of_nat_mult)
  then show "i = nat (xx * int s + b)" using a by simp
qed

lemma fold_lanes_shape:
  "map length (fold (\<lambda>b d. put d yy (pos b) (g b)) bs d) = map length d"
  by (induction bs arbitrary: d) simp_all

lemma fold_lanes_nth:
  assumes "0 < s" and "0 \<le> xx" and "\<forall>b\<in>set bs. 0 \<le> b \<and> b < int s"
  shows "fold (\<lambda>b d. put d yy (xx * int s + b) (g b)) bs d ! j ! i =
     (if j = nat yy \<and> j < length d \<and> i < length (d ! j)
         \<and> int (i div s) = xx \<and> int (i mod s) \<in> set bs
      then g (int (i mod s)) else d ! j ! i)"
  using assms(3)
proof (induction bs arbitrary: d)
  case Nil
  then show ?case by simp
next
  case (Cons b bs)
  have b: "0 \<le> b" "b < int s" using Cons.prems by auto
  have pos: "i = nat (xx * int s + b) \<longleftrightarrow> int (i div s) = xx \<and> int (i mod s) = b"
    by (rule nat_pos_iff[OF assms(1,2) b])
  show ?case using Cons.IH[of "put d yy (xx * int s + b) (g b)"] Cons.prems pos
    by (auto simp: nth_put)
qed


lemma shape_nth:
  assumes "map length d' = map length d"
  shows "length d' = length d" and "j < length d \<Longrightarrow> length (d' ! j) = length (d ! j)"
proof -
  show l: "length d' = length d" using assms by (rule map_eq_imp_length_eq)
  show "length (d' ! j) = length (d ! j)" if "j < length d"
    using that l assms by (metis nth_map)
qed

lemma fold_rows_shape:
  "map length (fold (\<lambda>yy d. fold (\<lambda>b d. put d yy (pos b) (g yy b)) bs d) ys d) = map length d"
  by (induction ys arbitrary: d) (simp_all add: fold_lanes_shape)

lemma fold_rows_nth:
  assumes "0 < s" and "0 \<le> xx" and "\<forall>b\<in>set bs. 0 \<le> b \<and> b < int s"
    and "\<forall>y\<in>set ys. 0 \<le> y"
  shows "fold (\<lambda>yy d. fold (\<lambda>b d. put d yy (xx * int s + b) (g yy b)) bs d) ys d ! j ! i =
     (if int j \<in> set ys \<and> j < length d \<and> i < length (d ! j)
         \<and> int (i div s) = xx \<and> int (i mod s) \<in> set bs
      then g (int j) (int (i mod s)) else d ! j ! i)"
  using assms(4)
proof (induction ys arbitrary: d)
  case Nil
  then show ?case by simp
next
  case (Cons y ys)
  let ?d' = "fold (\<lambda>b d. put d y (xx * int s + b) (g y b)) bs d"
  have sh: "map length ?d' = map length d" by (rule fold_lanes_shape)
  have y: "0 \<le> y" using Cons.prems by simp
  have jy: "j = nat y \<longleftrightarrow> int j = y" using y by auto
  have ih: "fold (\<lambda>yy d. fold (\<lambda>b d. put d yy (xx * int s + b) (g yy b)) bs d) ys ?d' ! j ! i =
     (if int j \<in> set ys \<and> j < length ?d' \<and> i < length (?d' ! j)
         \<and> int (i div s) = xx \<and> int (i mod s) \<in> set bs
      then g (int j) (int (i mod s)) else ?d' ! j ! i)"
    using Cons.IH[of ?d'] Cons.prems by simp
  have first: "?d' ! j ! i =
     (if j = nat y \<and> j < length d \<and> i < length (d ! j)
         \<and> int (i div s) = xx \<and> int (i mod s) \<in> set bs
      then g y (int (i mod s)) else d ! j ! i)"
    by (rule fold_lanes_nth[OF assms(1,2,3)])
  show ?case
    unfolding fold_simps ih first using shape_nth[OF sh] jy by auto
qed

lemma fold_cols_shape:
  "map length (fold (\<lambda>xx d. fold (\<lambda>yy d. fold (\<lambda>b d. put d yy (pos xx b) (g xx yy b)) bs d) ys d) xs d)
     = map length d"
  by (induction xs arbitrary: d) (simp_all add: fold_rows_shape)

lemma fold_cols_nth:
  assumes "0 < s" and "\<forall>b\<in>set bs. 0 \<le> b \<and> b < int s"
    and "\<forall>y\<in>set ys. 0 \<le> y" and "\<forall>x\<in>set xs. 0 \<le> x"
  shows "fold (\<lambda>xx d. fold (\<lambda>yy d. fold (\<lambda>b d. put d yy (xx * int s + b) (g xx yy b)) bs d) ys d) xs d
           ! j ! i =
     (if int (i div s) \<in> set xs \<and> int j \<in> set ys \<and> j < length d \<and> i < length (d ! j)
         \<and> int (i mod s) \<in> set bs
      then g (int (i div s)) (int j) (int (i mod s)) else d ! j ! i)"
  using assms(4)
proof (induction xs arbitrary: d)
  case Nil
  then show ?case by simp
next
  case (Cons x xs)
  let ?d' = "fold (\<lambda>yy d. fold (\<lambda>b d. put d yy (x * int s + b) (g x yy b)) bs d) ys d"
  have sh: "map length ?d' = map length d" by (rule fold_rows_shape)
  have x: "0 \<le> x" using Cons.prems by simp
  have ih: "fold (\<lambda>xx d. fold (\<lambda>yy d. fold (\<lambda>b d. put d yy (xx * int s + b) (g xx yy b)) bs d) ys d) xs ?d'
           ! j ! i =
     (if int (i div s) \<in> set xs \<and> int j \<in> set ys \<and> j < length ?d' \<and> i < length (?d' ! j)
         \<and> int (i mod s) \<in> set bs
      then g (int (i div s)) (int j) (int (i mod s)) else ?d' ! j ! i)"
    using Cons.IH[of ?d'] Cons.prems by simp
  have first: "?d' ! j ! i =
     (if int j \<in> set ys \<and> j < length d \<and> i < length (d ! j)
         \<and> int (i div s) = x \<and> int (i mod s) \<in> set bs
      then g x (int j) (int (i mod s)) else d ! j ! i)"
    by (rule fold_rows_nth[OF assms(1) x assms(2,3)])
  show ?case
    unfolding fold_simps ih first using shape_nth[OF sh] by auto
qed


lemma fold_grid_nth:
  assumes "\<forall>y\<in>set ys. 0 \<le> y" and "\<forall>x\<in>set xs. 0 \<le> x"
  shows "fold (\<lambda>xx d. fold (\<lambda>yy d. put d yy xx (g xx yy)) ys d) xs d ! j ! i =
     (if int i \<in> set xs \<and> int j \<in> set ys \<and> j < length d \<and> i < length (d ! j)
      then g (int i) (int j) else d ! j ! i)"
  using fold_cols_nth[of 1 "[0]" ys xs "\<lambda>xx yy b. g xx yy" d j i] assms by simp

lemma stretch_columns_cong:
  "(\<And>xx im. xx \<in> set xs \<Longrightarrow> body xx im = body' xx im)
   \<Longrightarrow> stretch_columns body xs imOut = stretch_columns body' xs imOut"
  by (induction xs arbitrary: imOut) (auto split: sum.splits)

lemma stretch_columns_total:
  "(\<And>xx im. body xx im = Inr (g xx im))
   \<Longrightarrow> stretch_columns body xs imOut = Inr (fold g xs imOut)"
  by (induction xs arbitrary: imOut) auto

lemma fold_field_image8:
  "fold (\<lambda>xx im. im\<lparr>image8 := map_option (h (ysize im) xx) (image8 im)\<rparr>) xs (imOut :: Imaging)
   = imOut\<lparr>image8 := map_option (fold (\<lambda>xx. h (ysize imOut) xx) xs) (image8 imOut)\<rparr>"
  by (induction xs arbitrary: imOut) (simp_all add: option.map_comp comp_def option.map_id)

lemma fold_field_image_raw:
  "fold (\<lambda>xx im. im\<lparr>image_raw := h (ysize im) xx (image_raw im)\<rparr>) xs (imOut :: Imaging)
   = imOut\<lparr>image_raw := fold (\<lambda>xx. h (ysize imOut) xx) xs (image_raw imOut)\<rparr>"
  by (induction xs arbitrary: imOut) simp_all

lemma fold_field_image32:
  "fold (\<lambda>xx im. im\<lparr>image32 := h (ysize im) xx (image32 im)\<rparr>) xs (imOut :: Imaging)
   = imOut\<lparr>image32 := fold (\<lambda>xx. h (ysize imOut) xx) xs (image32 imOut)\<rparr>"
  by (induction xs arbitrary: imOut) simp_all

lemma fold_field_image32f:
  "fold (\<lambda>xx im. im\<lparr>image32f := h (ysize im) xx (image32f im)\<rparr>) xs (imOut :: Imaging)
   = imOut\<lparr>image32f := fold (\<lambda>xx. h (ysize imOut) xx) xs (image32f imOut)\<rparr>"
  by (induction xs arbitrary: imOut) simp_all


subsection \<open>What a call that passes the checks computes\<close>

lemma stretch_reaches_loop:
  assumes "mode imIn = mode imOut" and "ysize imOut = ysize imIn"
    and "select_filter fp f = Some filterp" and "\<And>n. malloc_ok n"
  shows "ImagingStretchHorizaontal fp malloc_ok (Some imOut) (Some imIn) f =
     (case stretch_columns
             (\<lambda>xx. reduce_column fp imIn (column_coeffs fp filterp imIn imOut xx) xx)
             [0 .. xsize imOut - 1] imOut of
        Inl (e, im) \<Rightarrow> Inl (e, Some im)
      | Inr im \<Rightarrow> Inr im)"
  using assms
  by (simp add: ImagingStretchHorizaontal_def Let_def column_coeffs_def stretch_column_def[abs_def])

lemma stretch_image8:
  assumes "mode imIn = mode imOut" and "ysize imOut = ysize imIn"
    and "select_filter fp f = Some filterp" and "\<And>n. malloc_ok n"
    and "image8 imIn = Some src"
  shows "ImagingStretchHorizaontal fp malloc_ok (Some imOut) (Some imIn) f =
     Inr (imOut\<lparr>image8 := map_option
        (fold (\<lambda>xx. stretch8 fp src (column_coeffs fp filterp imIn imOut xx) (ysize imOut) xx)
           [0 .. xsize imOut - 1]) (image8 imOut)\<rparr>)"
  unfolding stretch_reaches_loop[OF assms(1-4)]
  by (subst stretch_columns_total[where g = "\<lambda>xx im. im\<lparr>image8 :=
        map_option (stretch8 fp src (column_coeffs fp filterp imIn imOut xx) (ysize im) xx) (image8 im)\<rparr>"])
     (simp_all add: reduce_column_def assms(5)
        fold_field_image8[where h = "\<lambda>H xx. stretch8 fp src (column_coeffs fp filterp imIn imOut xx) H xx"])

lemma stretch_image_raw:
  assumes "mode imIn = mode imOut" and "ysize imOut = ysize imIn"
    and "select_filter fp f = Some filterp" and "\<And>n. malloc_ok n"
    and "image8 imIn = None" and "type imIn = IMAGING_TYPE_UINT8"
  shows "ImagingStretchHorizaontal fp malloc_ok (Some imOut) (Some imIn) f =
     Inr (imOut\<lparr>image_raw :=
        fold (\<lambda>xx. stretch_raw fp (image_raw imIn) (bands imIn)
                     (column_coeffs fp filterp imIn imOut xx) (ysize imOut) xx)
           [0 .. xsize imOut - 1] (image_raw imOut)\<rparr>)"
  unfolding stretch_reaches_loop[OF assms(1-4)]
  by (subst stretch_columns_total[where g = "\<lambda>xx im. im\<lparr>image_raw :=
        stretch_raw fp (image_raw imIn) (bands imIn)
          (column_coeffs fp filterp imIn imOut xx) (ysize im) xx (image_raw im)\<rparr>"])
     (simp_all add: reduce_column_def assms(5,6)
        fold_field_image_raw[where h = "\<lambda>H xx. stretch_raw fp (image_raw imIn) (bands imIn)
          (column_coeffs fp filterp imIn imOut xx) H xx"])

lemma stretch_image32:
  assumes "mode imIn = mode imOut" and "ysize imOut = ysize imIn"
    and "select_filter fp f = Some filterp" and "\<And>n. malloc_ok n"
    and "image8 imIn = None" and "type imIn = IMAGING_TYPE_INT32"
  shows "ImagingStretchHorizaontal fp malloc_ok (Some imOut) (Some imIn) f =
     Inr (imOut\<lparr>image32 :=
        fold (\<lambda>xx. stretch32 fp (image32 imIn)
                     (column_coeffs fp filterp imIn imOut xx) (ysize imOut) xx)
           [0 .. xsize imOut - 1] (image32 imOut)\<rparr>)"
  unfolding stretch_reaches_loop[OF assms(1-4)]
  by (subst stretch_columns_total[where g = "\<lambda>xx im. im\<lparr>image32 :=
        stretch32 fp (image32 imIn)
          (column_coeffs fp filterp imIn imOut xx) (ysize im) xx (image32 im)\<rparr>"])
     (simp_all add: reduce_column_def assms(5,6)
        fold_field_image32[where h = "\<lambda>H xx. stretch32 fp (image32 imIn)
          (column_coeffs fp filterp imIn imOut xx) H xx"])

lemma stretch_image32f:
  assumes "mode imIn = mode imOut" and "ysize imOut = ysize imIn"
    and "select_filter fp f = Some filterp" and "\<And>n. malloc_ok n"
    and "image8 imIn = None" and "type imIn = IMAGING_TYPE_FLOAT32"
  shows "ImagingStretchHorizaontal fp malloc_ok (Some imOut) (Some imIn) f =
     Inr (imOut\<lparr>image32f :=
        fold (\<lambda>xx. stretch32f fp (image32f imIn)
                     (column_coeffs fp filterp imIn imOut xx) (ysize imOut) xx)
           [0 .. xsize imOut - 1] (image32f imOut)\<rparr>)"
  unfolding stretch_reaches_loop[OF assms(1-4)]
  by (subst stretch_columns_total[where g = "\<lambda>xx im. im\<lparr>image32f :=
        stretch32f fp (image32f imIn)
          (column_coeffs fp filterp imIn imOut xx) (ysize im) xx (image32f im)\<rparr>"])
     (simp_all add: reduce_column_def assms(5,6)
        fold_field_image32f[where h = "\<lambda>H xx. stretch32f fp (image32f imIn)
          (column_coeffs fp filterp imIn imOut xx) H xx"])

subsection \<open>The pixels of the result\<close>

lemma pixel32:
  "fold (\<lambda>xx. stretch32 fp src (cc xx) h xx) [0 .. w - 1] d ! j ! i =
     (if int i < w \<and> int j < h \<and> j < length d \<and> i < length (d ! j)
      then store32 fp (sum32 fp (src ! j) (cc (int i))) (c_ww (cc (int i)))
      else d ! j ! i)"
  unfolding stretch32_def
  by (subst fold_grid_nth) auto

lemma pixel32f:
  "fold (\<lambda>xx. stretch32f fp src (cc xx) h xx) [0 .. w - 1] d ! j ! i =
     (if int i < w \<and> int j < h \<and> j < length d \<and> i < length (d ! j)
      then to_float fp (sum32f fp (src ! j) (cc (int i)) * c_ww (cc (int i)))
      else d ! j ! i)"
  unfolding stretch32f_def
  by (subst fold_grid_nth) auto

lemma pixel8:
  "fold (\<lambda>xx. stretch8 fp src (cc xx) h xx) [0 .. w - 1] d ! j ! i =
     (if int i < w \<and> int j < h \<and> j < length d \<and> i < length (d ! j)
      then clip8 (bias fp (sum8 fp (src ! j) (cc (int i))) (c_ww (cc (int i))))
      else d ! j ! i)"
  unfolding stretch8_def
  by (subst fold_grid_nth) auto



lemma lanes_two: "lanes 2 0 = [0, 3]"
  by (simp add: lanes.simps[of 2 0] lanes.simps[of 2 1] lanes.simps[of 2 4] Let_def)

lemma lanes_small:
  assumes "n \<le> 4"
  shows "\<forall>b\<in>set (lanes n 0). 0 \<le> b \<and> b < int 4"
proof -
  consider "n \<le> 0" | "n = 1" | "n = 2" | "n = 3" | "n = 4" using assms by linarith
  then show ?thesis
  proof cases
    case 1 then show ?thesis by (simp add: lanes.simps[of n 0])
  next
    case 2 then show ?thesis by (simp add: lanes.simps[of 1 0] lanes.simps[of 1 1] Let_def)
  next
    case 3 then show ?thesis by (simp add: lanes_two)
  next
    case 4 then show ?thesis
      by (simp add: lanes.simps[of 3 0] lanes.simps[of 3 1] lanes.simps[of 3 2]
            lanes.simps[of 3 3] Let_def)
  next
    case 5 then show ?thesis
      by (simp add: lanes.simps[of 4 0] lanes.simps[of 4 1] lanes.simps[of 4 2]
            lanes.simps[of 4 3] lanes.simps[of 4 4] Let_def)
  qed
qed

lemma pixel_raw:
  assumes "\<forall>b\<in>set (lanes nb 0). 0 \<le> b \<and> b < int 4"
  shows "fold (\<lambda>xx. stretch_raw fp src nb (cc xx) h xx) [0 .. w - 1] d ! j ! i =
     (if int (i div 4) < w \<and> int j < h \<and> j < length d \<and> i < length (d ! j)
         \<and> int (i mod 4) \<in> set (lanes nb 0)
      then clip8 (bias fp (sum_raw fp (src ! j) (int (i mod 4)) (cc (int (i div 4))))
                   (c_ww (cc (int (i div 4)))))
      else d ! j ! i)"
  unfolding stretch_raw_def
  using fold_cols_nth[of 4 "lanes nb 0" "[0 .. h - 1]" "[0 .. w - 1]"
      "\<lambda>xx yy b. clip8 (bias fp (sum_raw fp (src ! nat yy) b (cc xx)) (c_ww (cc xx)))" d j i] assms
  by auto

lemma clip8_uint:
  "uint (clip8 s) = (if s < 1/2 then 0 else if 255 \<le> s then 255 else \<lfloor>s\<rfloor>)"
proof -
  have "uint (word_of_int \<lfloor>s\<rfloor> :: 8 word) = \<lfloor>s\<rfloor>" if "1/2 \<le> s" "s < 255"
  proof -
    have "0 \<le> \<lfloor>s\<rfloor>" "\<lfloor>s\<rfloor> < 256" using that by linarith+
    then show ?thesis by (simp add: uint_word_of_int)
  qed
  then show ?thesis by (auto simp: clip8_def c_int_def)
qed

text \<open>The definitions that evaluate a call on a concrete image.\<close>

lemma upto_eval:
  "[0..0] = [0::int]" "[0..1] = [0, 1::int]" "[1..1] = [1::int]" "[1..0] = ([]::int list)"
  "[0..- 1] = ([]::int list)"
  "[0..numeral n] = 0 # [1..numeral n]"
  "[1..numeral n] = 1 # [2..numeral n]"
  by (simp_all add: upto.simps)

lemmas eval_defs = header_def image_L_def image_I_def image_F_def image_LA_def
  column_coeffs_def stretch_step_def stretch_scale_def stretch_filterscale_def
  stretch_support_def Let_def window_def c_int_def weight_def k_at_def upto_eval
  select_filter_def NEAREST_def BILINEAR_def BICUBIC_def ANTIALIAS_def
  nearest_filter_def bilinear_filter_def

lemmas eval_call = ImagingStretchHorizaontal_def stretch_column_def reduce_column_def
  planning_pass_def bias_def clip8_def put_def eval_defs

subsection \<open>Failure on an unsupported format\<close>

text \<open>
  Claim C10. When the modes are equal, the heights are equal, the filter tag is one of
  the four supported ones and the destination is at least one column wide, a source that
  has no 8-bit plane and whose type is none of UINT8, INT32 and FLOAT32 makes
  \<open>ImagingStretchHorizaontal\<close> fail, and the destination it leaves is the destination
  it was given. When both scratch buffers are obtained the failure is the mode error,
  raised in the first column of the reduction loop.
\<close>

theorem unsupported_format_fails:
  assumes "mode imIn = mode imOut" and "ysize imOut = ysize imIn"
    and "select_filter fp f = Some filterp"
    and "1 \<le> xsize imOut"
    and "image8 imIn = None"
    and "type imIn \<notin> {IMAGING_TYPE_UINT8, IMAGING_TYPE_INT32, IMAGING_TYPE_FLOAT32}"
  shows "(\<exists>e. ImagingStretchHorizaontal fp malloc_ok (Some imOut) (Some imIn) f
                = Inl (e, Some imOut))
       \<and> ((\<forall>n. malloc_ok n) \<longrightarrow>
            ImagingStretchHorizaontal fp malloc_ok (Some imOut) (Some imIn) f
              = Inl (ModeError, Some imOut))"
proof -
  have t: "type imIn = IMAGING_TYPE_SPECIAL" using assms(6) by (cases "type imIn") auto
  have l: "[0 .. xsize imOut - 1] = 0 # [1 .. xsize imOut - 1]"
    using assms(4) by (simp add: upto_rec1)
  show ?thesis
    by (simp add: ImagingStretchHorizaontal_def assms(1-3) Let_def l stretch_column_def
          reduce_column_def assms(5) t)
qed

theorem unsupported_format_fails_witness:
  "ImagingStretchHorizaontal exact_fpu (\<lambda>n. True)
     (Some (header ''I;16'' IMAGING_TYPE_SPECIAL 1 1 1))
     (Some (header ''I;16'' IMAGING_TYPE_SPECIAL 1 2 1)) IMAGING_TRANSFORM_BILINEAR
   = Inl (ModeError, Some (header ''I;16'' IMAGING_TYPE_SPECIAL 1 1 1))"
  using unsupported_format_fails [of "header ''I;16'' IMAGING_TYPE_SPECIAL 1 2 1"
      "header ''I;16'' IMAGING_TYPE_SPECIAL 1 1 1" exact_fpu IMAGING_TRANSFORM_BILINEAR
      "BILINEAR exact_fpu" "\<lambda>n. True"]
  by (simp add: header_def select_filter_def)

subsection \<open>The planning pass and the reduction loop compute the same coefficients\<close>

lemma plan_step_eq: "plan_step fp filterp scale filterscale supp n xx
   = stretch_step fp filterp scale filterscale supp n xx"
  by (simp add: plan_step_def stretch_step_def)

lemma planning_pass_nth:
  assumes "xx \<in> set [0 .. w - 1]"
  shows "planning_pass fp filterp scale filterscale supp n w ! nat xx
     = stretch_step fp filterp scale filterscale supp n xx"
proof -
  have "0 \<le> xx" "xx \<le> w - 1" using assms by auto
  then have "nat xx < length [0 .. w - 1]" "[0 .. w - 1] ! nat xx = xx"
    by (simp_all add: nth_upto)
  then show ?thesis by (simp add: planning_pass_def plan_step_eq)
qed

text \<open>
  Claim C7. For every output position the window bounds, the weights and the reciprocal
  norm that the reduction loop computes are those that the planning pass stored for it,
  and the variant of the function that takes them from the planning table returns what
  \<open>ImagingStretchHorizaontal\<close> returns, on every input.
\<close>

theorem cached_plan_refines:
  "planned_coeffs fp filterp imIn imOut xx = column_coeffs fp filterp imIn imOut xx
   \<and> ImagingStretchHorizaontal_cached fp malloc_ok imOutp imInp f
       = ImagingStretchHorizaontal fp malloc_ok imOutp imInp f"
proof
  show "planned_coeffs fp filterp imIn imOut xx = column_coeffs fp filterp imIn imOut xx"
    by (simp add: planned_coeffs_def column_coeffs_def plan_step_eq)
  have "stretch_columns (\<lambda>xx. reduce_column fp i
           (planning_pass fp fd sc fs sp (xsize i) (xsize out) ! nat xx) xx)
          [0 .. xsize out - 1] out
      = stretch_columns (stretch_column fp fd sc fs sp i) [0 .. xsize out - 1] out"
    for i out fd sc fs sp
    by (rule stretch_columns_cong) (simp only: planning_pass_nth stretch_column_def)
  then show "ImagingStretchHorizaontal_cached fp malloc_ok imOutp imInp f
       = ImagingStretchHorizaontal fp malloc_ok imOutp imInp f"
    by (simp add: ImagingStretchHorizaontal_cached_def ImagingStretchHorizaontal_def Let_def
          split: option.splits)
qed

subsection \<open>Modes that ImagingStretch rejects\<close>

text \<open>
  Claim C8. For a source of mode \<^verbatim>\<open>"P"\<close> or \<^verbatim>\<open>"1"\<close>, \<open>ImagingStretch\<close> returns the mode
  error and has made no call: no intermediate image was allocated and no stretch or
  transpose was attempted.
\<close>

theorem palette_and_bilevel_rejected:
  assumes "mode imIn = ''P'' \<or> mode imIn = ''1''"
  shows "ImagingStretch fp malloc_ok ImagingNew ImagingTranspose imOut imIn f
           = (Inl ModeError, [])"
  using assms by (simp add: ImagingStretch_def Let_def)

theorem palette_and_bilevel_rejected_witness:
  "ImagingStretch exact_fpu (\<lambda>n. True) (\<lambda>m w h. Inr (header m IMAGING_TYPE_UINT8 1 w h))
     (\<lambda>imOut imIn. Inr imOut) (header ''P'' IMAGING_TYPE_UINT8 1 1 1)
     (header ''P'' IMAGING_TYPE_UINT8 1 2 2) IMAGING_TRANSFORM_BILINEAR
   = (Inl ModeError, [])"
  using palette_and_bilevel_rejected [of "header ''P'' IMAGING_TYPE_UINT8 1 2 2" exact_fpu
      "\<lambda>n. True" "\<lambda>m w h. Inr (header m IMAGING_TYPE_UINT8 1 w h)" "\<lambda>imOut imIn. Inr imOut"
      "header ''P'' IMAGING_TYPE_UINT8 1 1 1" IMAGING_TRANSFORM_BILINEAR]
  by (simp add: header_def)

subsection \<open>The 32-bit integer path\<close>

text \<open>
  Claim C5. In an INT32 image every destination pixel inside the destination is the
  weighted sum \<open>ss\<close> truncated to an integer, converted back and multiplied by the
  reciprocal norm, \<^verbatim>\<open>((int) ss) * ww\<close>, the product being truncated by the store. This
  holds whenever the sum and the product are within the range of \<^verbatim>\<open>int\<close>, which is
  where C defines the two conversions. The witness is a source row \<open>[2, 3]\<close> reduced to
  one pixel with the Bilinear filter: the pixel is 1, where truncating the normalised
  sum would give 2.
\<close>

theorem int32_truncate_then_scale:
  fixes c :: coeffs and ss scaled :: real
  assumes reach: "mode imIn = mode imOut" "ysize imOut = ysize imIn"
      "select_filter fp f = Some filterp" "\<And>n. malloc_ok n"
      "image8 imIn = None" "type imIn = IMAGING_TYPE_INT32"
    and inside: "int xx < xsize imOut" "int yy < ysize imOut"
      "yy < length (image32 imOut)" "xx < length (image32 imOut ! yy)"
  defines "c \<equiv> column_coeffs fp filterp imIn imOut (int xx)"
  defines "ss \<equiv> sum32 fp (image32 imIn ! yy) c"
  defines "scaled \<equiv> to_float fp (to_float fp (of_int (c_int ss)) * c_ww c)"
  assumes range: "int_range ss" "int_range scaled"
  shows "\<exists>imOut'. ImagingStretchHorizaontal fp malloc_ok (Some imOut) (Some imIn) f = Inr imOut'
     \<and> image32 imOut' ! yy ! xx = word_of_int (c_int scaled)
     \<and> sint (image32 imOut' ! yy ! xx) = c_int scaled"
proof -
  have s: "store32 fp ss (c_ww c) = word_of_int (c_int scaled)"
    using range by (simp add: store32_def c_int32_def scaled_def)
  have "- (2 ^ 31) \<le> c_int scaled" "c_int scaled < 2 ^ 31"
    using range(2) by (simp_all add: int_range_def)
  then have v: "sint (word_of_int (c_int scaled) :: 32 word) = c_int scaled"
    by (simp only: sint_sbintrunc' signed_take_bit_int_eq_self_iff) simp
  show ?thesis
    unfolding stretch_image32[OF reach] using inside s v
    by (simp add: pixel32 c_def ss_def)
qed

theorem int32_truncate_then_scale_witness:
  "(\<exists>imOut'. ImagingStretchHorizaontal exact_fpu (\<lambda>n. True) (Some (image_I [[0]]))
        (Some (image_I [[2, 3]])) IMAGING_TRANSFORM_BILINEAR = Inr imOut'
      \<and> image32 imOut' ! 0 ! 0 = 1)
   \<and> c_int (sum32 exact_fpu [2, 3]
               (column_coeffs exact_fpu (BILINEAR exact_fpu) (image_I [[2, 3]]) (image_I [[0]]) 0)
             * c_ww (column_coeffs exact_fpu (BILINEAR exact_fpu) (image_I [[2, 3]]) (image_I [[0]]) 0)) = 2"
  using int32_truncate_then_scale [of "image_I [[2, 3]]" "image_I [[0]]" exact_fpu
      IMAGING_TRANSFORM_BILINEAR "BILINEAR exact_fpu" "\<lambda>n. True" 0 0]
  by (simp add: eval_defs sum32_def int_range_def) blast

subsection \<open>Two-band images\<close>

lemma xmin_nonneg: "0 \<le> c_xmin (column_coeffs fp filterp imIn imOut xx)"
  by (simp add: column_coeffs_def stretch_step_def Let_def)

lemma window_nonneg:
  assumes "x \<in> set (window (c_xmin (column_coeffs fp filterp imIn imOut xx)) xmax)"
  shows "0 \<le> x"
proof -
  have "0 \<le> c_int (c_xmin (column_coeffs fp filterp imIn imOut xx))"
    using xmin_nonneg[of fp filterp imIn imOut xx] by (simp add: c_int_def)
  then show ?thesis using assms by (simp add: window_def)
qed

lemma sum_raw_cong:
  assumes "\<And>x. x \<in> set (window (c_xmin c) (c_xmax c)) \<Longrightarrow> row' ! nat (x * 4 + b) = row ! nat (x * 4 + b)"
  shows "sum_raw fp row' b c = sum_raw fp row b c"
  unfolding sum_raw_def by (rule fold_cong) (simp_all add: assms)

lemma sum_raw_lanes:
  assumes agree: "\<forall>j i. i mod 4 = 0 \<or> i mod 4 = 3 \<longrightarrow> src' ! j ! i = src ! j ! i"
    and b: "b = 0 \<or> b = 3"
  shows "sum_raw fp (src' ! j) b (column_coeffs fp filterp imIn imOut xx)
       = sum_raw fp (src ! j) b (column_coeffs fp filterp imIn imOut xx)"
proof (rule sum_raw_cong)
  fix x assume "x \<in> set (window (c_xmin (column_coeffs fp filterp imIn imOut xx))
                            (c_xmax (column_coeffs fp filterp imIn imOut xx)))"
  then have x: "0 \<le> x" by (rule window_nonneg)
  have "nat (x * 4 + b) mod 4 = nat b" using x b by (auto simp: nat_add_distrib nat_mult_distrib)
  then have "nat (x * 4 + b) mod 4 = 0 \<or> nat (x * 4 + b) mod 4 = 3" using b by auto
  then show "src' ! j ! nat (x * 4 + b) = src ! j ! nat (x * 4 + b)" by (simp add: agree)
qed

lemma stretch_raw_two:
  assumes agree: "\<forall>j i. i mod 4 = 0 \<or> i mod 4 = 3 \<longrightarrow> src' ! j ! i = src ! j ! i"
  shows "stretch_raw fp src' 2 (column_coeffs fp filterp imIn imOut xx) h xx
       = stretch_raw fp src 2 (column_coeffs fp filterp imIn imOut xx) h xx"
  by (simp add: stretch_raw_def lanes_two sum_raw_lanes[OF agree] fun_eq_iff)

lemma la_example_rows_agree:
  "\<forall>j i. i mod 4 = 0 \<or> i mod 4 = 3 \<longrightarrow>
      [[10, 5, 6, 200, 30, 7, 8, 100 :: 8 word]] ! j ! i
        = image_raw (image_LA [[10, 1, 2, 200, 30, 3, 4, 100]]) ! j ! i"
proof (intro allI impI)
  fix j i :: nat
  assume m: "i mod 4 = 0 \<or> i mod 4 = 3"
  have "[10, 5, 6, 200, 30, 7, 8, 100 :: 8 word] ! i = [10, 1, 2, 200, 30, 3, 4, 100] ! i"
  proof (cases "i < 8")
    case True
    then consider "i = 0" | "i = 1" | "i = 2" | "i = 3" | "i = 4" | "i = 5" | "i = 6" | "i = 7"
      by linarith
    then show ?thesis using m by cases simp_all
  next
    case False
    then obtain k where "i = 8 + k" using le_Suc_ex not_less by blast
    then show ?thesis by (simp add: nth_Cons')
  qed
  then show "[[10, 5, 6, 200, 30, 7, 8, 100 :: 8 word]] ! j ! i
        = image_raw (image_LA [[10, 1, 2, 200, 30, 3, 4, 100]]) ! j ! i"
    by (cases j) (simp_all add: image_LA_def header_def)
qed

text \<open>
  Claim C9. For an 8-bit image with two bands (no 8-bit plane, type UINT8), the lanes
  1 and 2 of every four-lane pixel of the destination are as they were before the call,
  and the result does not depend on the lanes 1 and 2 of the source: a source that
  differs from \<open>imIn\<close> only there gives the same result. Only the lanes 0 and 3 are
  read and written.
\<close>

theorem la_lanes_frame:
  assumes "mode imIn = mode imOut" and "ysize imOut = ysize imIn"
    and "select_filter fp f = Some filterp" and "\<And>n. malloc_ok n"
    and "image8 imIn = None" and "type imIn = IMAGING_TYPE_UINT8" and "bands imIn = 2"
    and "\<forall>j i. i mod 4 = 0 \<or> i mod 4 = 3 \<longrightarrow> src' ! j ! i = image_raw imIn ! j ! i"
  shows "(\<exists>imOut'. ImagingStretchHorizaontal fp malloc_ok (Some imOut) (Some imIn) f = Inr imOut'
            \<and> (\<forall>j i. i mod 4 = 1 \<or> i mod 4 = 2 \<longrightarrow>
                  image_raw imOut' ! j ! i = image_raw imOut ! j ! i))
       \<and> ImagingStretchHorizaontal fp malloc_ok (Some imOut) (Some (imIn\<lparr>image_raw := src'\<rparr>)) f
           = ImagingStretchHorizaontal fp malloc_ok (Some imOut) (Some imIn) f"
proof
  have l: "\<forall>b\<in>set (lanes 2 0). 0 \<le> b \<and> b < int 4" by (simp add: lanes_two)
  show "\<exists>imOut'. ImagingStretchHorizaontal fp malloc_ok (Some imOut) (Some imIn) f = Inr imOut'
            \<and> (\<forall>j i. i mod 4 = 1 \<or> i mod 4 = 2 \<longrightarrow>
                  image_raw imOut' ! j ! i = image_raw imOut ! j ! i)"
    unfolding stretch_image_raw[OF assms(1-6)] assms(7)
    by (auto simp: pixel_raw[OF l] lanes_two)
  have c: "column_coeffs fp filterp (imIn\<lparr>image_raw := src'\<rparr>) imOut
         = column_coeffs fp filterp imIn imOut"
    by (simp add: column_coeffs_def fun_eq_iff)
  have "ImagingStretchHorizaontal fp malloc_ok (Some imOut) (Some (imIn\<lparr>image_raw := src'\<rparr>)) f
      = Inr (imOut\<lparr>image_raw :=
          fold (\<lambda>xx. stretch_raw fp src' 2 (column_coeffs fp filterp imIn imOut xx) (ysize imOut) xx)
            [0 .. xsize imOut - 1] (image_raw imOut)\<rparr>)"
    using stretch_image_raw[of "imIn\<lparr>image_raw := src'\<rparr>" imOut fp f filterp malloc_ok] assms(1-7)
    by (simp add: c)
  then show "ImagingStretchHorizaontal fp malloc_ok (Some imOut) (Some (imIn\<lparr>image_raw := src'\<rparr>)) f
           = ImagingStretchHorizaontal fp malloc_ok (Some imOut) (Some imIn) f"
    unfolding stretch_image_raw[OF assms(1-6)] assms(7)
    by (simp add: stretch_raw_two[OF assms(8)])
qed

theorem la_lanes_frame_witness:
  "(\<exists>imOut'. ImagingStretchHorizaontal exact_fpu (\<lambda>n. True) (Some (image_LA [[7, 8, 9, 10]]))
        (Some (image_LA [[10, 1, 2, 200, 30, 3, 4, 100]])) IMAGING_TRANSFORM_BILINEAR = Inr imOut'
      \<and> image_raw imOut' = [[20, 8, 9, 150]])
   \<and> ImagingStretchHorizaontal exact_fpu (\<lambda>n. True) (Some (image_LA [[7, 8, 9, 10]]))
        (Some ((image_LA [[10, 1, 2, 200, 30, 3, 4, 100]])
                 \<lparr>image_raw := [[10, 5, 6, 200, 30, 7, 8, 100]]\<rparr>)) IMAGING_TRANSFORM_BILINEAR
     = ImagingStretchHorizaontal exact_fpu (\<lambda>n. True) (Some (image_LA [[7, 8, 9, 10]]))
        (Some (image_LA [[10, 1, 2, 200, 30, 3, 4, 100]])) IMAGING_TRANSFORM_BILINEAR"
proof -
  have sel: "select_filter exact_fpu IMAGING_TRANSFORM_BILINEAR = Some (BILINEAR exact_fpu)"
    by (simp add: select_filter_def)
  have ev: "ImagingStretchHorizaontal exact_fpu (\<lambda>n. True) (Some (image_LA [[7, 8, 9, 10]]))
        (Some (image_LA [[10, 1, 2, 200, 30, 3, 4, 100]])) IMAGING_TRANSFORM_BILINEAR
      = Inr ((image_LA [[7, 8, 9, 10]])\<lparr>image_raw := [[20, 8, 9, 150]]\<rparr>)"
    by (simp add: eval_call stretch_raw_def sum_raw_def lanes_two)
  from la_lanes_frame [of "image_LA [[10, 1, 2, 200, 30, 3, 4, 100]]" "image_LA [[7, 8, 9, 10]]"
      exact_fpu IMAGING_TRANSFORM_BILINEAR "BILINEAR exact_fpu" "\<lambda>n. True"
      "[[10, 5, 6, 200, 30, 7, 8, 100]]", OF _ _ sel _ _ _ _ la_example_rows_agree]
  have "ImagingStretchHorizaontal exact_fpu (\<lambda>n. True) (Some (image_LA [[7, 8, 9, 10]]))
        (Some ((image_LA [[10, 1, 2, 200, 30, 3, 4, 100]])
                 \<lparr>image_raw := [[10, 5, 6, 200, 30, 7, 8, 100]]\<rparr>)) IMAGING_TRANSFORM_BILINEAR
     = ImagingStretchHorizaontal exact_fpu (\<lambda>n. True) (Some (image_LA [[7, 8, 9, 10]]))
        (Some (image_LA [[10, 1, 2, 200, 30, 3, 4, 100]])) IMAGING_TRANSFORM_BILINEAR"
    by (simp add: image_LA_def header_def)
  then show ?thesis by (simp add: ev)
qed


subsection \<open>The 8-bit store\<close>

text \<open>
  Claim C4. Every 8-bit pixel that the reduction writes, in the single plane \<open>image8\<close>
  and in every lane of the band loop of a packed image of at most four bands (the
  two-band case included), is
  \<open>clip8\<close> of the weighted sum times the reciprocal norm plus the bias 1/2; and
  \<open>clip8 s\<close> is 0 when \<open>s < 1/2\<close>, 255 when \<open>s \<ge> 255\<close> and the integer part of \<open>s\<close>
  otherwise, so that every value written lies between 0 and 255.
\<close>

theorem eight_bit_store:
  assumes "mode imIn = mode imOut" and "ysize imOut = ysize imIn"
    and "select_filter fp f = Some filterp" and "\<And>n. malloc_ok n"
  defines "cc \<equiv> column_coeffs fp filterp imIn imOut"
  shows "(\<forall>src dst yy xx.
            image8 imIn = Some src \<and> image8 imOut = Some dst
            \<and> int xx < xsize imOut \<and> int yy < ysize imOut
            \<and> yy < length dst \<and> xx < length (dst ! yy) \<longrightarrow>
            (\<exists>imOut' dst'.
               ImagingStretchHorizaontal fp malloc_ok (Some imOut) (Some imIn) f = Inr imOut'
               \<and> image8 imOut' = Some dst'
               \<and> dst' ! yy ! xx =
                   clip8 (to_float fp (to_double fp (to_float fp
                     (sum8 fp (src ! yy) (cc (int xx)) * c_ww (cc (int xx))) + 1/2)))))
       \<and> (\<forall>yy xx b.
            image8 imIn = None \<and> type imIn = IMAGING_TYPE_UINT8 \<and> bands imIn \<le> 4
            \<and> b \<in> set (lanes (bands imIn) 0)
            \<and> int xx < xsize imOut \<and> int yy < ysize imOut
            \<and> yy < length (image_raw imOut)
            \<and> nat (int xx * 4 + b) < length (image_raw imOut ! yy) \<longrightarrow>
            (\<exists>imOut'.
               ImagingStretchHorizaontal fp malloc_ok (Some imOut) (Some imIn) f = Inr imOut'
               \<and> image_raw imOut' ! yy ! nat (int xx * 4 + b) =
                   clip8 (to_float fp (to_double fp (to_float fp
                     (sum_raw fp (image_raw imIn ! yy) b (cc (int xx)) * c_ww (cc (int xx)))
                      + 1/2)))))
       \<and> (\<forall>s. uint (clip8 s) = (if s < 1/2 then 0 else if 255 \<le> s then 255 else \<lfloor>s\<rfloor>)
              \<and> 0 \<le> uint (clip8 s) \<and> uint (clip8 s) \<le> 255)"
proof (intro conjI allI impI)
  fix src dst yy xx
  assume a: "image8 imIn = Some src \<and> image8 imOut = Some dst
            \<and> int xx < xsize imOut \<and> int yy < ysize imOut
            \<and> yy < length dst \<and> xx < length (dst ! yy)"
  then have s: "image8 imIn = Some src" by simp
  show "\<exists>imOut' dst'.
               ImagingStretchHorizaontal fp malloc_ok (Some imOut) (Some imIn) f = Inr imOut'
               \<and> image8 imOut' = Some dst'
               \<and> dst' ! yy ! xx =
                   clip8 (to_float fp (to_double fp (to_float fp
                     (sum8 fp (src ! yy) (cc (int xx)) * c_ww (cc (int xx))) + 1/2)))"
    unfolding stretch_image8[OF assms(1-4) s] using a
    by (simp add: pixel8 bias_def cc_def)
next
  fix yy xx b
  assume a: "image8 imIn = None \<and> type imIn = IMAGING_TYPE_UINT8 \<and> bands imIn \<le> 4
            \<and> b \<in> set (lanes (bands imIn) 0)
            \<and> int xx < xsize imOut \<and> int yy < ysize imOut
            \<and> yy < length (image_raw imOut)
            \<and> nat (int xx * 4 + b) < length (image_raw imOut ! yy)"
  then have n: "image8 imIn = None" and t: "type imIn = IMAGING_TYPE_UINT8" by simp_all
  have l: "\<forall>b\<in>set (lanes (bands imIn) 0). 0 \<le> b \<and> b < int 4"
    using a by (intro lanes_small) simp
  then have b: "0 \<le> b" "b < 4" using a by auto
  have p: "nat (int xx * 4 + b) div 4 = xx" "int (nat (int xx * 4 + b) mod 4) = b"
    using nat_pos_iff[of 4 "int xx" b "nat (int xx * 4 + b)"] b by auto
  show "\<exists>imOut'.
               ImagingStretchHorizaontal fp malloc_ok (Some imOut) (Some imIn) f = Inr imOut'
               \<and> image_raw imOut' ! yy ! nat (int xx * 4 + b) =
                   clip8 (to_float fp (to_double fp (to_float fp
                     (sum_raw fp (image_raw imIn ! yy) b (cc (int xx)) * c_ww (cc (int xx)))
                      + 1/2)))"
    unfolding stretch_image_raw[OF assms(1-4) n t] using a
    by (simp add: pixel_raw[OF l] p bias_def cc_def)
next
  fix s
  show "uint (clip8 s) = (if s < 1/2 then 0 else if 255 \<le> s then 255 else \<lfloor>s\<rfloor>)"
    by (rule clip8_uint)
  show "0 \<le> uint (clip8 s)" by simp
  show "uint (clip8 s) \<le> 255" by (simp add: clip8_uint)
qed



theorem eight_bit_store_witness:
  "(\<exists>imOut'. ImagingStretchHorizaontal exact_fpu (\<lambda>n. True) (Some (image_L [[0]]))
        (Some (image_L [[255, 255]])) IMAGING_TRANSFORM_BILINEAR = Inr imOut'
      \<and> image8 imOut' = Some [[255]])
   \<and> uint (clip8 (511 / 2)) = 255"
proof -
  have sel: "select_filter exact_fpu IMAGING_TRANSFORM_BILINEAR = Some (BILINEAR exact_fpu)"
    by (simp add: select_filter_def)
  have ev: "ImagingStretchHorizaontal exact_fpu (\<lambda>n. True) (Some (image_L [[0]]))
        (Some (image_L [[255, 255]])) IMAGING_TRANSFORM_BILINEAR
      = Inr ((image_L [[0]])\<lparr>image8 := Some [[255]]\<rparr>)"
    by (simp add: eval_call stretch8_def sum8_def)
  from eight_bit_store [of "image_L [[255, 255]]" "image_L [[0]]" exact_fpu
      IMAGING_TRANSFORM_BILINEAR "BILINEAR exact_fpu" "\<lambda>n. True", OF _ _ sel]
  have "uint (clip8 (511 / 2)) = 255"
    by (simp add: image_L_def header_def)
  then show ?thesis by (simp add: ev)
qed


subsection \<open>Flat fields\<close>

lemma fold_plus_sum_list:
  "fold (\<lambda>x (s::real). s + f x) xs a = a + sum_list (map f xs)"
  by (induction xs arbitrary: a) simp_all

lemma window_mem: "x \<in> set (window a b) \<longleftrightarrow> c_int a \<le> x \<and> x < c_int b"
  by (auto simp: window_def)

lemma k_at_map:
  assumes "c_k c = map w (window (c_xmin c) (c_xmax c))"
    and "x \<in> set (window (c_xmin c) (c_xmax c))"
  shows "k_at c x = w x"
proof -
  have x: "c_int (c_xmin c) \<le> x" "x \<le> c_int (c_xmax c) - 1"
    using assms(2) by (auto simp: window_def)
  then have "nat (x - c_int (c_xmin c)) < length (window (c_xmin c) (c_xmax c))"
    by (simp add: window_def)
  moreover have "window (c_xmin c) (c_xmax c) ! nat (x - c_int (c_xmin c)) = x"
    using x by (simp add: window_def nth_upto)
  ultimately show ?thesis by (simp add: k_at_def assms(1))
qed

lemma stretch_step_k:
  "\<exists>w. c_k (stretch_step fp filterp sc fs sp n xx)
        = map w (window (c_xmin (stretch_step fp filterp sc fs sp n xx))
                        (c_xmax (stretch_step fp filterp sc fs sp n xx)))"
  unfolding stretch_step_def Let_def coeffs.select_convs by (rule exI) (rule refl)

lemma coeffs_exact:
  fixes filterp imIn imOut xx
  defines "c \<equiv> column_coeffs exact_fpu filterp imIn imOut xx"
  shows "\<exists>w. c_k c = map w (window (c_xmin c) (c_xmax c))"
    and "c_ww c = (if sum_list (c_k c) = 0 then 1 else 1 / sum_list (c_k c))"
proof -
  show "\<exists>w. c_k c = map w (window (c_xmin c) (c_xmax c))"
    unfolding c_def column_coeffs_def Let_def by (rule stretch_step_k)
  show "c_ww c = (if sum_list (c_k c) = 0 then 1 else 1 / sum_list (c_k c))"
    by (simp add: c_def column_coeffs_def stretch_step_def Let_def fold_plus_sum_list)
qed

lemma support_nonneg:
  "select_filter fp f = Some filterp \<Longrightarrow> 0 \<le> support filterp"
  by (auto simp: select_filter_def NEAREST_def ANTIALIAS_def BILINEAR_def BICUBIC_def
      split: transform.splits)

lemma column_window_exact:
  assumes "0 \<le> support filterp" and "0 \<le> xsize imIn" and "0 \<le> xx" and "xx < xsize imOut"
    and "x \<in> set (window (c_xmin (column_coeffs exact_fpu filterp imIn imOut xx))
                         (c_xmax (column_coeffs exact_fpu filterp imIn imOut xx)))"
  shows "0 \<le> x" and "x < xsize imIn"
proof -
  let ?c = "column_coeffs exact_fpu filterp imIn imOut xx"
  have o: "1 \<le> xsize imOut" using assms(3,4) by simp
  have c: "?c = plan_step exact_fpu filterp (stretch_scale exact_fpu (xsize imIn) (xsize imOut))
      (stretch_filterscale (stretch_scale exact_fpu (xsize imIn) (xsize imOut)))
      (stretch_support exact_fpu filterp
         (stretch_filterscale (stretch_scale exact_fpu (xsize imIn) (xsize imOut))))
      (xsize imIn) xx"
    by (simp add: column_coeffs_def plan_step_eq Let_def)
  have lo: "0 \<le> c_xmin ?c" and hi: "c_xmax ?c \<le> of_int (xsize imIn)"
    unfolding c using planned_window_exact[OF assms(1,2) o assms(3,4)] by simp_all
  have "0 \<le> c_int (c_xmin ?c)" using lo by (simp add: c_int_def)
  then show "0 \<le> x" using assms(5) by (simp add: window_mem)
  have "c_int (c_xmax ?c) \<le> xsize imIn" using hi by (auto simp: c_int_def) linarith+
  then show "x < xsize imIn" using assms(5) by (simp add: window_mem)
qed

lemma sum32f_exact_const:
  assumes "c_k c = map w (window (c_xmin c) (c_xmax c))"
    and "\<forall>x\<in>set (window (c_xmin c) (c_xmax c)). row ! nat x = v"
  shows "sum32f exact_fpu row c = v * sum_list (c_k c)"
proof -
  have "sum32f exact_fpu row c
      = sum_list (map (\<lambda>x. row ! nat x * k_at c x) (window (c_xmin c) (c_xmax c)))"
    by (simp add: sum32f_def fold_plus_sum_list)
  also have "\<dots> = sum_list (map (\<lambda>x. v * w x) (window (c_xmin c) (c_xmax c)))"
    by (rule arg_cong[where f = sum_list], rule map_cong)
       (simp_all add: assms(2) k_at_map[OF assms(1)])
  also have "\<dots> = v * sum_list (c_k c)"
    by (simp add: assms(1) sum_list_const_mult)
  finally show ?thesis .
qed

text \<open>
  Claim C2. In exact arithmetic, for each of the four filters and every output position
  whose weights do not sum to zero, the weights times the reciprocal norm that the
  planning pass stores sum to 1, and a FLOAT32 source whose row has the value \<open>v\<close> in
  every column gives the value \<open>v\<close> at that position of the destination.
\<close>

theorem flat_field_float:
  assumes "mode imIn = mode imOut" and "ysize imOut = ysize imIn"
    and "select_filter exact_fpu f = Some filterp" and "\<And>n. malloc_ok n"
    and "image8 imIn = None" and "type imIn = IMAGING_TYPE_FLOAT32"
    and "0 \<le> xsize imIn"
    and "int xx < xsize imOut" and "int yy < ysize imOut"
    and "yy < length (image32f imOut)" and "xx < length (image32f imOut ! yy)"
    and "\<forall>i < nat (xsize imIn). image32f imIn ! yy ! i = v"
    and "sum_list (c_k (planned_coeffs exact_fpu filterp imIn imOut (int xx))) \<noteq> 0"
  shows "(\<Sum>w\<leftarrow>c_k (planned_coeffs exact_fpu filterp imIn imOut (int xx)).
            w * c_ww (planned_coeffs exact_fpu filterp imIn imOut (int xx))) = 1
       \<and> (\<exists>imOut'. ImagingStretchHorizaontal exact_fpu malloc_ok (Some imOut) (Some imIn) f
                      = Inr imOut'
            \<and> image32f imOut' ! yy ! xx = v)"
proof -
  let ?c = "column_coeffs exact_fpu filterp imIn imOut (int xx)"
  have pc: "planned_coeffs exact_fpu filterp imIn imOut (int xx) = ?c"
    by (simp add: planned_coeffs_def column_coeffs_def plan_step_eq)
  have nz: "sum_list (c_k ?c) \<noteq> 0" using assms(13) by (simp add: pc)
  have ww: "c_ww ?c = 1 / sum_list (c_k ?c)" using coeffs_exact(2)[of filterp imIn imOut "int xx"] nz by simp
  obtain w where k: "c_k ?c = map w (window (c_xmin ?c) (c_xmax ?c))"
    using coeffs_exact(1) by blast
  have s: "0 \<le> support filterp" by (rule support_nonneg[OF assms(3)])
  have "\<forall>x\<in>set (window (c_xmin ?c) (c_xmax ?c)). image32f imIn ! yy ! nat x = v"
  proof
    fix x assume x: "x \<in> set (window (c_xmin ?c) (c_xmax ?c))"
    have "0 \<le> x" "x < xsize imIn"
      using column_window_exact[OF s assms(7) _ assms(8) x] by simp_all
    then have "nat x < nat (xsize imIn)" by simp
    then show "image32f imIn ! yy ! nat x = v" using assms(12) by blast
  qed
  then have sum: "sum32f exact_fpu (image32f imIn ! yy) ?c = v * sum_list (c_k ?c)"
    by (rule sum32f_exact_const[OF k])
  have "(\<Sum>w\<leftarrow>c_k ?c. w * c_ww ?c) = sum_list (c_k ?c) * c_ww ?c"
    using sum_list_mult_const[of "\<lambda>w. w" "c_ww ?c" "c_k ?c"] by simp
  then have one: "(\<Sum>w\<leftarrow>c_k ?c. w * c_ww ?c) = 1"
    using nz by (simp add: ww)
  have px: "\<exists>imOut'. ImagingStretchHorizaontal exact_fpu malloc_ok (Some imOut) (Some imIn) f
                      = Inr imOut'
            \<and> image32f imOut' ! yy ! xx = v"
    unfolding stretch_image32f[OF assms(1-6)] using assms(8-11) nz
    by (simp add: pixel32f sum ww)
  show ?thesis using one px by (simp add: pc)
qed

theorem flat_field_float_witness:
  "(\<Sum>w\<leftarrow>c_k (planned_coeffs exact_fpu (BILINEAR exact_fpu)
                   (image_F [[5/2, 5/2]]) (image_F [[0]]) 0).
        w * c_ww (planned_coeffs exact_fpu (BILINEAR exact_fpu)
                   (image_F [[5/2, 5/2]]) (image_F [[0]]) 0)) = 1
   \<and> (\<exists>imOut'. ImagingStretchHorizaontal exact_fpu (\<lambda>n. True) (Some (image_F [[0]]))
           (Some (image_F [[5/2, 5/2]])) IMAGING_TRANSFORM_BILINEAR = Inr imOut'
         \<and> image32f imOut' ! 0 ! 0 = 5/2)"
proof -
  have pc: "planned_coeffs exact_fpu (BILINEAR exact_fpu) (image_F [[5/2, 5/2]]) (image_F [[0]]) 0
    = \<lparr>c_xmin = 0, c_xmax = 2, c_ww = 4/3, c_k = [3/8, 3/8]\<rparr>"
    by (simp add: planned_coeffs_def plan_step_def eval_defs)
  have c: "\<forall>i<nat (xsize (image_F [[5/2, 5/2]])). image32f (image_F [[5/2, 5/2]]) ! 0 ! i = 5/2"
    by (simp add: image_F_def header_def less_Suc_eq numeral_2_eq_2)
  show ?thesis
    using flat_field_float [of "image_F [[5/2, 5/2]]" "image_F [[0]]" IMAGING_TRANSFORM_BILINEAR
      "BILINEAR exact_fpu" "\<lambda>n. True" 0 0 "5/2", OF _ _ _ _ _ _ _ _ _ _ _ c]
    by (simp add: pc) (simp add: image_F_def header_def select_filter_def)
qed

subsection \<open>Binary32 and binary64 rounding\<close>

lemma round_half_even_int [simp]: "round_half_even (of_int z) = z"
  by (simp add: round_half_even_def)

lemma shrink_spec:
  assumes "emin \<le> e"
  shows "emin \<le> shrink p emin a e \<and> shrink p emin a e \<le> e
       \<and> (shrink p emin a e = emin \<or> 2 ^ (p - 1) \<le> a * 2 ^ nat (e - shrink p emin a e))"
  using assms
proof (induction p emin a e rule: shrink.induct)
  case (1 p emin a e)
  show ?case
  proof (cases "a < 2 ^ (p - 1) \<and> emin < e")
    case True
    then have eq: "shrink p emin a e = shrink p emin (a * 2) (e - 1)"
      by (subst shrink.simps) simp
    let ?e = "shrink p emin (a * 2) (e - 1)"
    have ih: "emin \<le> ?e \<and> ?e \<le> e - 1
       \<and> (?e = emin \<or> 2 ^ (p - 1) \<le> a * 2 * 2 ^ nat (e - 1 - ?e))"
      using "1.IH"[OF True] True by simp
    have "nat (e - ?e) = Suc (nat (e - 1 - ?e))" using ih by linarith
    then have "a * 2 ^ nat (e - ?e) = a * 2 * 2 ^ nat (e - 1 - ?e)" by simp
    then show ?thesis unfolding eq using ih by auto
  next
    case False
    then have eq: "shrink p emin a e = e" by (subst shrink.simps) auto
    show ?thesis unfolding eq using False "1.prems" by auto
  qed
qed

lemma round_to_dyadic:
  assumes m: "\<bar>m\<bar> < 2 ^ p" and j: "int j \<le> - emin"
  shows "round_to p emin (of_int m / 2 ^ j) = of_int m / 2 ^ j"
proof (cases "m = 0")
  case True
  then show ?thesis by (simp add: round_to_def)
next
  case False
  define r :: real where "r = of_int m / 2 ^ j"
  have r0: "r \<noteq> 0" using False by (simp add: r_def)
  have am: "\<bar>real_of_int m\<bar> < 2 ^ p" using m by (metis of_int_abs of_int_less_numeral_power_cancel_iff)
  have "\<bar>r\<bar> = \<bar>real_of_int m\<bar> / 2 ^ j" by (simp add: r_def)
  also have "\<dots> \<le> \<bar>real_of_int m\<bar>"
  proof -
    have "\<bar>real_of_int m\<bar> * 1 \<le> \<bar>real_of_int m\<bar> * 2 ^ j"
      by (intro mult_left_mono) simp_all
    then show ?thesis by (simp add: divide_le_eq)
  qed
  finally have ar: "\<bar>r\<bar> < 2 ^ p" using am by linarith
  define e where "e = shrink p emin \<bar>r\<bar> 0"
  have qe: "quantum_exp p emin \<bar>r\<bar> = e" using ar by (simp add: quantum_exp_def e_def)
  have emin0: "emin \<le> 0" using j by linarith
  note sp = shrink_spec[OF emin0, of p "\<bar>r\<bar>", folded e_def]
  have e0: "e \<le> 0" using sp by simp
  have ej: "e \<le> - int j"
  proof (rule ccontr)
    assume "\<not> e \<le> - int j"
    then have gt: "- int j < e" by simp
    then have "e \<noteq> emin" using j by linarith
    then have big: "2 ^ (p - 1) \<le> \<bar>r\<bar> * 2 ^ nat (0 - e)" using sp by blast
    have lt: "nat (- e) < j" using gt e0 by linarith
    then obtain d where d: "j = Suc (nat (- e) + d)" using less_imp_Suc_add by blast
    have "\<bar>r\<bar> * 2 ^ nat (- e) = \<bar>real_of_int m\<bar> / (2 * 2 ^ d)"
      by (simp add: r_def d power_add)
    also have "\<dots> \<le> \<bar>real_of_int m\<bar> / 2"
    proof -
      have "\<bar>real_of_int m\<bar> * 1 \<le> \<bar>real_of_int m\<bar> * 2 ^ d"
        by (intro mult_left_mono) simp_all
      then show ?thesis by (simp add: field_simps)
    qed
    also have "\<dots> < 2 ^ p / 2" using am by simp
    finally have "\<bar>r\<bar> * 2 ^ nat (- e) < 2 ^ p / 2" .
    moreover have "(2::real) ^ p / 2 \<le> 2 ^ (p - 1)" by (cases p) simp_all
    ultimately show False using big by simp
  qed
  obtain d where d: "nat (- e) = j + d"
    using ej by (metis le_Suc_ex nat_int nat_mono neg_le_iff_le minus_minus)
  have q: "(if 0 \<le> e then 2 ^ nat e else 1 / 2 ^ nat (- e)) = (1 / 2 ^ (j + d) :: real)"
    using e0 d by (cases "e = 0") auto
  have "r / (1 / 2 ^ (j + d)) = of_int (m * 2 ^ d)" by (simp add: r_def power_add)
  then have "of_int (round_half_even (r / (1 / 2 ^ (j + d)))) * (1 / 2 ^ (j + d)) = r"
    by (simp only: round_half_even_int) (simp add: r_def power_add)
  then have "round_to p emin r = r"
    using r0 by (simp add: round_to_def Let_def qe q)
  then show ?thesis by (simp add: r_def)
qed


lemma round_to_0 [simp]: "round_to p emin 0 = 0"
  by (simp add: round_to_def)

lemma ieee_sel [simp]:
  "to_float ieee_fpu = round_to 24 (- 149)" "to_double ieee_fpu = round_to 53 (- 1074)"
  by (simp_all add: ieee_fpu_def)

text \<open>Rounding a given number: the definitions unfold on it.\<close>

lemmas round_eval = round_to_def quantum_exp_def round_half_even_def Let_def
  grow.simps shrink.simps

lemma round_to_2_24:
  "round_to 24 (- 149) 16777216 = 16777216"
  "round_to 24 (- 149) (- 16777216) = - 16777216"
  "round_to 24 (- 149) 16777217 = 16777216"
  by (simp_all add: round_eval)

lemma ieee_int_representable:
  assumes "\<bar>m\<bar> \<le> 2 ^ 24"
  shows "representable ieee_fpu (of_int m)"
proof -
  have "\<bar>m\<bar> < 2 ^ 53" using assms by simp
  then have d: "round_to 53 (- 1074) (of_int m) = of_int m"
    using round_to_dyadic[of m 53 0 "- 1074"] by simp
  have f: "round_to 24 (- 149) (of_int m) = of_int m"
  proof (cases "\<bar>m\<bar> = 2 ^ 24")
    case True
    then have "m = 16777216 \<or> m = - 16777216" by auto
    then show ?thesis using round_to_2_24 by auto
  next
    case False
    then have "\<bar>m\<bar> < 2 ^ 24" using assms by simp
    then show ?thesis using round_to_dyadic[of m 24 0 "- 149"] by simp
  qed
  show ?thesis by (simp add: representable_def d f)
qed

lemma ieee_halves_exact: "halves_exact ieee_fpu (2 ^ 24)"
  unfolding halves_exact_def
proof (intro allI impI)
  fix k :: int
  assume k: "- 1 \<le> k \<and> k \<le> 2 ^ 24"
  show "representable ieee_fpu (of_int k / 2)"
  proof (cases "k = 2 ^ 24")
    case True
    then have "(of_int k / 2 :: real) = of_int 8388608" by simp
    then show ?thesis using ieee_int_representable[of 8388608] by simp
  next
    case False
    then have a: "\<bar>k\<bar> < 2 ^ 24" using k by auto
    then have b: "\<bar>k\<bar> < 2 ^ 53" by simp
    have f: "round_to 24 (- 149) (of_int k / 2) = of_int k / 2"
      using round_to_dyadic[OF a, of 1 "- 149"] by simp
    have d: "round_to 53 (- 1074) (of_int k / 2) = of_int k / 2"
      using round_to_dyadic[OF b, of 1 "- 1074"] by simp
    show ?thesis by (simp add: representable_def d f)
  qed
qed

subsection \<open>An INT32 row beyond the range of int\<close>

text \<open>
  Beyond the range of \<^verbatim>\<open>int\<close> an INT32 pixel depends on the conversion. In a row of
  three pixels \<^verbatim>\<open>INT_MAX\<close> reduced to two with the Nearest filter, each pixel is cast to
  the \<^verbatim>\<open>float\<close> \<open>2147483648\<close>. The first column has the sum \<open>1431655808\<close> and the
  norm \<open>3/2\<close>: the product \<open>2147483648\<close> is beyond the range. The second column has
  the sum \<open>2863311616\<close>, beyond the range, and the norm \<open>3/4\<close>. With the conversion
  of x86-64 the destination row is \<open>[- 2147483648, - 1610612736]\<close>.
\<close>

lemma store32_beyond_int:
  "store32 ieee_fpu 1431655808 (3/2) = - 2147483648"
  "store32 ieee_fpu 2863311616 (3/4) = - 1610612736"
  by (simp_all add: store32_def c_int32_def int_range_def c_int_def round_eval)

lemma int_max_roundings:
  "round_to 24 (- 149) (- 2147483648) = (- 2147483648)"
  "round_to 24 (- 149) (- 1610612736) = (- 1610612736)"
  "round_to 24 (- 149) (- (5 / 4)) = (- (5 / 4))"
  "round_to 24 (- 149) (- (3 / 4)) = (- (3 / 4))"
  "round_to 24 (- 149) (- (33554433 / 67108864)) = (- (1 / 2))"
  "round_to 24 (- 149) (- (1 / 4)) = (- (1 / 4))"
  "round_to 24 (- 149) (- (11184811 / 67108864)) = (- (11184811 / 67108864))"
  "round_to 24 (- 149) (11184811 / 67108864) = (11184811 / 67108864)"
  "round_to 24 (- 149) (1 / 4) = (1 / 4)"
  "round_to 24 (- 149) (33554433 / 67108864) = (1 / 2)"
  "round_to 24 (- 149) (6004799503160661 / 9007199254740992) = (11184811 / 16777216)"
  "round_to 24 (- 149) (11184811 / 16777216) = (11184811 / 16777216)"
  "round_to 24 (- 149) (3377699619864579 / 4503599627370496) = (3 / 4)"
  "round_to 24 (- 149) (3 / 4) = (3 / 4)"
  "round_to 24 (- 149) 1 = 1"
  "round_to 24 (- 149) (11184811 / 8388608) = (11184811 / 8388608)"
  "round_to 24 (- 149) (3377699619864579 / 2251799813685248) = (3 / 2)"
  "round_to 24 (- 149) (3 / 2) = (3 / 2)"
  "round_to 24 (- 149) 2 = 2"
  "round_to 24 (- 149) (9 / 4) = (9 / 4)"
  "round_to 24 (- 149) 3 = 3"
  "round_to 24 (- 149) 1431655808 = 1431655808"
  "round_to 24 (- 149) 2147483647 = 2147483648"
  "round_to 24 (- 149) 2147483712 = 2147483648"
  "round_to 24 (- 149) 2863311616 = 2863311616"
  "round_to 53 (- 1074) (- (3 / 4)) = (- (3 / 4))"
  "round_to 53 (- 1074) (- (33554433 / 67108864)) = (- (33554433 / 67108864))"
  "round_to 53 (- 1074) (- (1 / 4)) = (- (1 / 4))"
  "round_to 53 (- 1074) (- (11184811 / 67108864)) = (- (11184811 / 67108864))"
  "round_to 53 (- 1074) (11184811 / 67108864) = (11184811 / 67108864)"
  "round_to 53 (- 1074) (1 / 4) = (1 / 4)"
  "round_to 53 (- 1074) (1 / 2) = (1 / 2)"
  "round_to 53 (- 1074) (33554433 / 67108864) = (33554433 / 67108864)"
  "round_to 53 (- 1074) (2 / 3) = (6004799503160661 / 9007199254740992)"
  "round_to 53 (- 1074) (8388608 / 11184811) = (3377699619864579 / 4503599627370496)"
  "round_to 53 (- 1074) (3 / 4) = (3 / 4)"
  "round_to 53 (- 1074) (16777216 / 11184811) = (3377699619864579 / 2251799813685248)"
  "round_to 53 (- 1074) (3 / 2) = (3 / 2)"
  "round_to 53 (- 1074) (9 / 4) = (9 / 4)"
  by (simp_all add: round_eval)

lemma int_max_row:
  "ImagingStretchHorizaontal ieee_fpu (\<lambda>n. True) (Some (image_I [[0, 0]]))
     (Some (image_I [[2147483647, 2147483647, 2147483647]])) IMAGING_TRANSFORM_NEAREST
   = Inr ((image_I [[0, 0]])\<lparr>image32 := [[- 2147483648, - 1610612736]]\<rparr>)"
  by (simp add: eval_call stretch32_def sum32_def store32_def c_int32_def int_range_def
        int_max_roundings)

subsection \<open>Rounding is monotone and accurate\<close>

text \<open>
  The exponent search ends with the scaled magnitude below \<open>2 ^ p\<close> and, unless the
  smallest quantum is reached, at least \<open>2 ^ (p - 1)\<close>. From this: rounding is
  monotone, and above the subnormal range it raises a value by at most the fraction
  \<open>1 / 2 ^ p\<close> of it.
\<close>

lemma round_half_even_bounds:
  "of_int (round_half_even x) \<le> x + 1/2" "x - 1/2 \<le> of_int (round_half_even x)"
  unfolding round_half_even_def Let_def by (auto split: if_splits) linarith+

lemma round_half_even_mono:
  assumes "x \<le> y"
  shows "round_half_even x \<le> round_half_even y"
proof (cases "\<lfloor>x\<rfloor> = \<lfloor>y\<rfloor>")
  case True
  then show ?thesis using assms unfolding round_half_even_def Let_def by auto
next
  case False
  then have "\<lfloor>x\<rfloor> + 1 \<le> \<lfloor>y\<rfloor>" using assms floor_mono[OF assms] by linarith
  moreover have "round_half_even x \<le> \<lfloor>x\<rfloor> + 1"
    unfolding round_half_even_def Let_def by auto
  moreover have "\<lfloor>y\<rfloor> \<le> round_half_even y"
    unfolding round_half_even_def Let_def by auto
  ultimately show ?thesis by linarith
qed

lemma round_half_even_ge_int: "of_int k \<le> x \<Longrightarrow> k \<le> round_half_even x"
  using round_half_even_mono[of "of_int k" x] by simp

lemma round_half_even_le_int: "x \<le> of_int k \<Longrightarrow> round_half_even x \<le> k"
  using round_half_even_mono[of x "of_int k"] by simp

lemma quantum_powr:
  "(if 0 \<le> e then 2 ^ nat e else 1 / 2 ^ nat (- e)) = (2::real) powr of_int e"
  by (simp add: powr_real_of_int inverse_eq_divide)

lemma round_to_powr:
  "r \<noteq> 0 \<Longrightarrow> round_to p emin r =
     of_int (round_half_even (r / 2 powr of_int (quantum_exp p emin \<bar>r\<bar>)))
       * 2 powr of_int (quantum_exp p emin \<bar>r\<bar>)"
  by (simp add: round_to_def Let_def quantum_powr)

lemma shrink_upper:
  assumes "0 < p" and "a < 2 ^ p" and "emin \<le> e"
  shows "a * 2 ^ nat (e - shrink p emin a e) < 2 ^ p"
  using assms
proof (induction p emin a e rule: shrink.induct)
  case (1 p emin a e)
  show ?case
  proof (cases "a < 2 ^ (p - 1) \<and> emin < e")
    case True
    then have eq: "shrink p emin a e = shrink p emin (a * 2) (e - 1)"
      by (subst shrink.simps) simp
    let ?e = "shrink p emin (a * 2) (e - 1)"
    have "a * 2 < 2 * 2 ^ (p - 1)" using True by simp
    also have "\<dots> = (2::real) ^ p" using "1.prems"(1) by (cases p) simp_all
    finally have a2: "a * 2 < 2 ^ p" .
    have ih: "a * 2 * 2 ^ nat (e - 1 - ?e) < 2 ^ p"
      using "1.IH"[OF True "1.prems"(1) a2] True by simp
    have "?e \<le> e - 1" using shrink_spec[of emin "e - 1" p "a * 2"] True by simp
    then have "nat (e - ?e) = Suc (nat (e - 1 - ?e))" by linarith
    then have E: "a * 2 ^ nat (e - ?e) = a * 2 * 2 ^ nat (e - 1 - ?e)" by simp
    show ?thesis unfolding eq E by (rule ih)
  next
    case False
    then have eq: "shrink p emin a e = e" by (subst shrink.simps) auto
    show ?thesis unfolding eq using "1.prems" by simp
  qed
qed

lemma grow_spec:
  assumes "0 < p" and "2 ^ p \<le> a"
  shows "e < grow p a e \<and> 2 ^ (p - 1) \<le> a / 2 ^ nat (grow p a e - e)
       \<and> a / 2 ^ nat (grow p a e - e) < 2 ^ p"
  using assms
proof (induction p a e rule: grow.induct)
  case (1 p a e)
  have p2: "(2::real) \<le> 2 ^ p" using "1.prems"(1) by (cases p) simp_all
  then have c: "2 \<le> a \<and> 2 ^ p \<le> a" using "1.prems"(2) by simp
  then have eq: "grow p a e = grow p (a / 2) (e + 1)" by (subst grow.simps) simp
  have pp: "(2::real) ^ p = 2 * 2 ^ (p - 1)" using "1.prems"(1) by (cases p) simp_all
  show ?case
  proof (cases "2 ^ p \<le> a / 2")
    case True
    let ?g = "grow p (a / 2) (e + 1)"
    have ih: "e + 1 < ?g \<and> 2 ^ (p - 1) \<le> a / 2 / 2 ^ nat (?g - (e + 1))
       \<and> a / 2 / 2 ^ nat (?g - (e + 1)) < 2 ^ p"
      using "1.IH"[OF c "1.prems"(1) True] .
    then have "nat (?g - e) = Suc (nat (?g - (e + 1)))" by linarith
    then have E: "a / 2 ^ nat (?g - e) = a / 2 / 2 ^ nat (?g - (e + 1))" by simp
    have "e < ?g" using ih by linarith
    then show ?thesis unfolding eq E using ih by blast
  next
    case False
    then have g: "grow p (a / 2) (e + 1) = e + 1" by (subst grow.simps) simp
    have "2 ^ (p - 1) \<le> a / 2" using "1.prems"(2) pp by simp
    then show ?thesis unfolding eq g using False by simp
  qed
qed


lemma quantum_exp_spec:
  assumes p: "0 < p" and emin: "emin \<le> 0" and a: "0 < a"
  shows "emin \<le> quantum_exp p emin a"
    and "a < 2 ^ p * 2 powr of_int (quantum_exp p emin a)"
    and "quantum_exp p emin a = emin
       \<or> 2 ^ (p - 1) * 2 powr of_int (quantum_exp p emin a) \<le> a"
proof -
  have "emin \<le> quantum_exp p emin a
      \<and> a < 2 ^ p * 2 powr of_int (quantum_exp p emin a)
      \<and> (quantum_exp p emin a = emin
          \<or> 2 ^ (p - 1) * 2 powr of_int (quantum_exp p emin a) \<le> a)"
  proof (cases "2 ^ p \<le> a")
    case True
    define g where "g = grow p a 0"
    have q: "quantum_exp p emin a = g" using True by (simp add: quantum_exp_def g_def)
    have g: "0 < g" "2 ^ (p - 1) \<le> a / 2 ^ nat g" "a / 2 ^ nat g < 2 ^ p"
      using grow_spec[OF p True, of 0] by (simp_all add: g_def)
    have pw: "2 powr of_int g = (2::real) ^ nat g"
      using g(1) by (simp add: powr_real_of_int)
    show ?thesis unfolding q pw using g emin by (simp add: field_simps)
  next
    case False
    define e where "e = shrink p emin a 0"
    have q: "quantum_exp p emin a = e" using False by (simp add: quantum_exp_def e_def)
    have lt: "a < 2 ^ p" using False by simp
    have s: "emin \<le> e" "e \<le> 0" "e = emin \<or> 2 ^ (p - 1) \<le> a * 2 ^ nat (- e)"
      using shrink_spec[OF emin, of p a] by (simp_all add: e_def)
    have u: "a * 2 ^ nat (- e) < 2 ^ p"
      using shrink_upper[OF p lt emin] by (simp add: e_def)
    have pw: "2 powr of_int e = 1 / (2::real) ^ nat (- e)"
      using s(2) by (cases "e = 0") (simp_all add: powr_real_of_int inverse_eq_divide)
    show ?thesis unfolding q pw using s u by (simp add: field_simps)
  qed
  then show "emin \<le> quantum_exp p emin a"
    and "a < 2 ^ p * 2 powr of_int (quantum_exp p emin a)"
    and "quantum_exp p emin a = emin
       \<or> 2 ^ (p - 1) * 2 powr of_int (quantum_exp p emin a) \<le> a"
    by simp_all
qed

lemma powr_step: "e < e' \<Longrightarrow> 2 * 2 powr of_int e \<le> (2::real) powr of_int e'"
proof -
  assume "e < e'"
  then have "real_of_int e + 1 \<le> of_int e'" by linarith
  then have "(2::real) powr (of_int e + 1) \<le> 2 powr of_int e'"
    by (intro powr_mono) simp_all
  then show ?thesis by (simp add: powr_add)
qed

lemma quantum_exp_mono:
  assumes p: "0 < p" and emin: "emin \<le> 0" and x: "0 < x" and xy: "x \<le> y"
  shows "quantum_exp p emin x \<le> quantum_exp p emin y"
proof (rule ccontr)
  assume "\<not> ?thesis"
  then have lt: "quantum_exp p emin y < quantum_exp p emin x" by simp
  have y: "0 < y" using x xy by simp
  note sx = quantum_exp_spec[OF p emin x] and sy = quantum_exp_spec[OF p emin y]
  have "quantum_exp p emin x \<noteq> emin" using lt sy(1) by simp
  then have lo: "2 ^ (p - 1) * 2 powr of_int (quantum_exp p emin x) \<le> x" using sx(3) by simp
  have pp: "(2::real) ^ p = 2 ^ (p - 1) * 2" using p by (cases p) simp_all
  have "y < 2 ^ (p - 1) * (2 * 2 powr of_int (quantum_exp p emin y))"
    using sy(2) by (simp add: pp)
  also have "\<dots> \<le> 2 ^ (p - 1) * 2 powr of_int (quantum_exp p emin x)"
    by (intro mult_left_mono powr_step[OF lt]) simp
  finally show False using lo xy by simp
qed

lemma round_to_nonneg: "0 \<le> x \<Longrightarrow> 0 \<le> round_to p emin x"
  using round_half_even_ge_int[of 0 "x / 2 powr of_int (quantum_exp p emin \<bar>x\<bar>)"]
  by (cases "x = 0") (simp_all add: round_to_powr)

lemma round_to_nonpos: "x \<le> 0 \<Longrightarrow> round_to p emin x \<le> 0"
  using round_half_even_le_int[of "x / 2 powr of_int (quantum_exp p emin \<bar>x\<bar>)" 0]
  by (cases "x = 0") (simp_all add: round_to_powr mult_le_0_iff divide_le_0_iff)

lemma round_to_mono_pos:
  assumes p: "0 < p" and emin: "emin \<le> 0" and x: "0 < x" and xy: "x \<le> y"
  shows "round_to p emin x \<le> round_to p emin y"
proof -
  have y: "0 < y" using x xy by simp
  define ex where "ex = quantum_exp p emin x"
  define ey where "ey = quantum_exp p emin y"
  have fx: "round_to p emin x = of_int (round_half_even (x / 2 powr of_int ex)) * 2 powr of_int ex"
    using x by (simp add: round_to_powr ex_def)
  have fy: "round_to p emin y = of_int (round_half_even (y / 2 powr of_int ey)) * 2 powr of_int ey"
    using y by (simp add: round_to_powr ey_def)
  note sx = quantum_exp_spec[OF p emin x, folded ex_def]
  note sy = quantum_exp_spec[OF p emin y, folded ey_def]
  have le: "ex \<le> ey" unfolding ex_def ey_def by (rule quantum_exp_mono[OF p emin x xy])
  show ?thesis
  proof (cases "ex = ey")
    case True
    have "x / 2 powr of_int ey \<le> y / 2 powr of_int ey"
      using xy by (simp add: divide_right_mono)
    then have "round_half_even (x / 2 powr of_int ey) \<le> round_half_even (y / 2 powr of_int ey)"
      by (rule round_half_even_mono)
    then show ?thesis unfolding fx fy True
      by (intro mult_right_mono) simp_all
  next
    case False
    then have lt: "ex < ey" using le by simp
    have pp: "(2::real) ^ p = 2 ^ (p - 1) * 2" using p by (cases p) simp_all
    have "x / 2 powr of_int ex \<le> of_int (2 ^ p)"
      using sx(2) by (simp add: divide_le_eq)
    then have "round_half_even (x / 2 powr of_int ex) \<le> 2 ^ p"
      by (rule round_half_even_le_int)
    then have "real_of_int (round_half_even (x / 2 powr of_int ex)) \<le> 2 ^ p"
      by (metis of_int_le_numeral_power_cancel_iff)
    then have "round_to p emin x \<le> 2 ^ p * 2 powr of_int ex"
      unfolding fx by (intro mult_right_mono) simp_all
    also have "\<dots> = 2 ^ (p - 1) * (2 * 2 powr of_int ex)" by (simp add: pp)
    also have "\<dots> \<le> 2 ^ (p - 1) * 2 powr of_int ey"
      by (intro mult_left_mono powr_step[OF lt]) simp
    also have "\<dots> \<le> round_to p emin y"
    proof -
      have "ey \<noteq> emin" using lt sx(1) by simp
      then have "2 ^ (p - 1) * 2 powr of_int ey \<le> y" using sy(3) by simp
      then have "of_int (2 ^ (p - 1)) \<le> y / 2 powr of_int ey"
        by (simp add: le_divide_eq)
      then have "2 ^ (p - 1) \<le> round_half_even (y / 2 powr of_int ey)"
        by (rule round_half_even_ge_int)
      then have "2 ^ (p - 1) \<le> real_of_int (round_half_even (y / 2 powr of_int ey))"
        by (metis numeral_power_le_of_int_cancel_iff)
      then show ?thesis unfolding fy by (intro mult_right_mono) simp_all
    qed
    finally show ?thesis .
  qed
qed

lemma round_to_mono:
  assumes "0 < p" and "emin \<le> 0" and "x \<le> y" and "0 \<le> y"
  shows "round_to p emin x \<le> round_to p emin y"
proof (cases "0 < x")
  case True
  then show ?thesis using assms by (intro round_to_mono_pos)
next
  case False
  then have "round_to p emin x \<le> 0" by (intro round_to_nonpos) simp
  moreover have "0 \<le> round_to p emin y" using assms(4) by (rule round_to_nonneg)
  ultimately show ?thesis by simp
qed

lemma round_to_upper:
  assumes p: "0 < p" and emin: "emin \<le> 0" and x: "2 ^ (p - 1) * 2 powr of_int emin \<le> x"
  shows "round_to p emin x \<le> x + x / 2 ^ p"
proof -
  have "0 < 2 ^ (p - 1) * 2 powr real_of_int emin" by simp
  then have x0: "0 < x" using x by linarith
  define e where "e = quantum_exp p emin x"
  define q :: real where "q = 2 powr of_int e"
  have q0: "0 < q" by (simp add: q_def)
  have f: "round_to p emin x = of_int (round_half_even (x / q)) * q"
    using x0 by (simp add: round_to_powr e_def q_def)
  have lo: "2 ^ (p - 1) * q \<le> x"
    using quantum_exp_spec(3)[OF p emin x0, folded e_def] x by (auto simp: q_def)
  have pp: "(2::real) ^ p = 2 ^ (p - 1) * 2" using p by (cases p) simp_all
  have "round_to p emin x \<le> (x / q + 1/2) * q"
    unfolding f using round_half_even_bounds(1)[of "x / q"] q0 by (intro mult_right_mono) simp_all
  also have "\<dots> = x + q / 2" using q0 by (simp add: field_simps)
  also have "q / 2 \<le> x / 2 ^ p"
    using lo by (simp add: pp field_simps)
  finally show ?thesis by simp
qed

lemma ieee_mono:
  assumes "x \<le> y" and "0 \<le> y"
  shows "round_to 24 (- 149) x \<le> round_to 24 (- 149) y"
    and "round_to 53 (- 1074) x \<le> round_to 53 (- 1074) y"
  using assms by (simp_all add: round_to_mono)

lemma ieee_float_int: "\<bar>m\<bar> \<le> 2 ^ 24 \<Longrightarrow> round_to 24 (- 149) (of_int m) = of_int m"
  using ieee_int_representable[of m] by (simp add: representable_def)

lemma ieee_double_half:
  assumes "0 \<le> m" and "m \<le> 2 ^ 24"
  shows "round_to 53 (- 1074) (of_int m + 1/2) = of_int m + 1/2"
proof -
  have "\<bar>2 * m + 1\<bar> < 2 ^ 53" using assms by simp
  from round_to_dyadic[OF this, of 1 "- 1074"] show ?thesis by (simp add: add_divide_distrib)
qed

lemma ieee_float_half:
  assumes "0 \<le> m" and "m < 2 ^ 23"
  shows "round_to 24 (- 149) (of_int m + 1/2) = of_int m + 1/2"
proof -
  have "\<bar>2 * m + 1\<bar> < 2 ^ 24" using assms by simp
  from round_to_dyadic[OF this, of 1 "- 149"] show ?thesis by (simp add: add_divide_distrib)
qed

lemma ieee_float_small:
  "round_to 24 (- 149) (1/2) = 1/2" "round_to 24 (- 149) (1 / 2 ^ 24) = 1 / 2 ^ 24"
  using round_to_dyadic[of 1 24 1 "- 149"] round_to_dyadic[of 1 24 24 "- 149"] by simp_all

lemma ieee_float_upper:
  assumes "1 / 2 ^ 24 \<le> x"
  shows "round_to 24 (- 149) x \<le> x + x / 2 ^ 24"
proof -
  have "2 ^ (24 - 1) * 2 powr of_int (- 149) \<le> (1 / 2 ^ 24 :: real)"
    by (simp add: powr_minus_divide)
  then have "2 ^ (24 - 1) * 2 powr of_int (- 149) \<le> x" using assms by linarith
  then show ?thesis by (intro round_to_upper) simp_all
qed

lemma ieee_double_upper:
  assumes "1 / 2 ^ 25 \<le> x"
  shows "round_to 53 (- 1074) x \<le> x + x / 2 ^ 53"
proof -
  have "2 ^ (53 - 1) * 2 powr of_int (- 1074) \<le> (1 / 2 ^ 25 :: real)"
    by (simp add: powr_minus_divide)
  then have "2 ^ (53 - 1) * 2 powr of_int (- 1074) \<le> x" using assms by linarith
  then show ?thesis by (intro round_to_upper) simp_all
qed

lemma ieee_float_below_half:
  assumes lo: "2 ^ 23 \<le> n" and hi: "n \<le> 2 ^ 24" and x: "x < of_int n + 1/2"
  shows "round_to 24 (- 149) x \<le> of_int n"
proof (cases "x \<le> of_int n")
  case True
  have "round_to 24 (- 149) x \<le> round_to 24 (- 149) (of_int n)"
    using True lo by (intro ieee_mono) simp_all
  then show ?thesis using ieee_float_int[of n] lo hi by simp
next
  case False
  then have gt: "of_int n < x" by simp
  show ?thesis
  proof (cases "n = 2 ^ 24")
    case True
    then have "x \<le> 16777217" using x by simp
    then have "round_to 24 (- 149) x \<le> round_to 24 (- 149) 16777217"
      by (intro ieee_mono) simp_all
    then show ?thesis using True by (simp add: round_to_2_24)
  next
    case False
    then have n: "real_of_int n + 1 \<le> 2 ^ 24" using hi
      by (metis add.commute of_int_le_numeral_power_cancel_iff of_int_1 of_int_add zless_imp_add1_zle less_le)
    have lo': "(2::real) ^ 23 \<le> of_int n" using lo by (metis numeral_power_le_of_int_cancel_iff)
    have x1: "2 ^ 23 < x" "x < 2 ^ 24" using gt x n lo' by linarith+
    have e: "quantum_exp 24 (- 149) x = 0"
      using x1 by (simp add: quantum_exp_def shrink.simps)
    have fl: "\<lfloor>x\<rfloor> = n" using gt x by linarith
    have "round_half_even x = n"
      using x by (simp add: round_half_even_def Let_def fl)
    then show ?thesis using x1 by (simp add: round_to_def e Let_def)
  qed
qed

subsection \<open>The planned window with binary32 rounding\<close>

text \<open>
  The rounded centre of the last output column can exceed the exact one, but for lengths
  up to \<open>2 ^ 24\<close> not by enough to pass the source length plus one half.
\<close>

lemma binary32_center_bound:
  assumes n0: "0 \<le> n" and n1: "n \<le> 2 ^ 24" and m0: "1 \<le> m" and m1: "m \<le> 2 ^ 24"
    and x0: "0 \<le> xx" and x1: "xx < m"
  defines "scale \<equiv> round_to 24 (- 149) (of_int n / of_int m)"
  defines "center \<equiv> round_to 24 (- 149)
      (round_to 53 (- 1074) (round_to 53 (- 1074) (of_int xx + 1/2) * scale))"
  shows "0 \<le> scale" and "0 \<le> center" and "center \<le> of_int n + 1/2"
    and "2 ^ 23 \<le> n \<Longrightarrow> center \<le> of_int n"
proof -
  have rn: "(0::real) \<le> of_int n" "real_of_int n \<le> 2 ^ 24"
    using n0 n1 by (simp, metis of_int_le_numeral_power_cancel_iff)
  have rm: "(1::real) \<le> of_int m" "real_of_int m \<le> 2 ^ 24"
    using m0 m1 by (simp, metis of_int_le_numeral_power_cancel_iff)
  have rx: "(0::real) \<le> of_int xx" "real_of_int xx + 1 \<le> of_int m"
    using x0 x1 by (simp, linarith)
  have xm: "xx \<le> 2 ^ 24" using x1 m1 by linarith
  have h: "round_to 53 (- 1074) (of_int xx + 1/2) = of_int xx + 1/2"
    by (rule ieee_double_half[OF x0 xm])
  define r :: real where "r = of_int n / of_int m"
  have r0: "0 \<le> r" using rn rm by (simp add: r_def)
  show sc0: "0 \<le> scale" unfolding scale_def r_def[symmetric] using r0 by (rule round_to_nonneg)
  define p where "p = (of_int xx + 1/2) * scale"
  have p0: "0 \<le> p" using sc0 rx by (simp add: p_def)
  have ce: "center = round_to 24 (- 149) (round_to 53 (- 1074) p)"
    by (simp add: center_def h p_def)
  have dp0: "0 \<le> round_to 53 (- 1074) p" using p0 by (rule round_to_nonneg)
  show "0 \<le> center" unfolding ce using dp0 by (rule round_to_nonneg)
  have dp: "round_to 53 (- 1074) p < of_int n + 1/2"
  proof (cases "n = 0")
    case True
    then show ?thesis by (simp add: p_def scale_def)
  next
    case False
    then have n1': "(1::real) \<le> of_int n" using n0 by linarith
    have rlo: "1 / 2 ^ 24 \<le> r"
      using rm n1' by (simp add: r_def pos_le_divide_eq)
    have s_hi: "scale \<le> r + r / 2 ^ 24"
      unfolding scale_def r_def[symmetric] by (rule ieee_float_upper[OF rlo])
    have s_lo: "1 / 2 ^ 24 \<le> scale"
    proof -
      have "round_to 24 (- 149) (1 / 2 ^ 24) \<le> round_to 24 (- 149) r"
        using rlo r0 by (intro ieee_mono)
      then show ?thesis unfolding scale_def r_def[symmetric] by (simp only: ieee_float_small)
    qed
    have plo: "1 / 2 ^ 25 \<le> p"
    proof -
      have "1/2 * (1 / 2 ^ 24) \<le> (of_int xx + 1/2) * scale"
        using rx s_lo by (intro mult_mono) simp_all
      then show ?thesis by (simp add: p_def)
    qed
    have "p \<le> (of_int m - 1/2) * scale"
      unfolding p_def using rx sc0 by (intro mult_right_mono) simp_all
    also have "\<dots> \<le> (of_int m - 1/2) * (r + r / 2 ^ 24)"
      using s_hi rm by (intro mult_left_mono) simp_all
    also have "\<dots> = (of_int n - of_int n / (2 * of_int m)) * (1 + 1 / 2 ^ 24)"
      using rm by (simp add: r_def field_simps)
    also have "\<dots> \<le> (of_int n - of_int n / 2 ^ 25) * (1 + 1 / 2 ^ 24)"
    proof -
      have "2 * real_of_int m \<le> 2 ^ 25" using rm(2) by simp
      then have "real_of_int n / 2 ^ 25 \<le> of_int n / (2 * of_int m)"
        using rn rm by (intro divide_left_mono) simp_all
      then show ?thesis by (intro mult_right_mono) simp_all
    qed
    finally have p_hi: "p \<le> (of_int n - of_int n / 2 ^ 25) * (1 + 1 / 2 ^ 24)" .
    have "round_to 53 (- 1074) p \<le> p + p / 2 ^ 53" by (rule ieee_double_upper[OF plo])
    also have "\<dots> = p * (1 + 1 / 2 ^ 53)" by (simp add: field_simps)
    also have "\<dots> \<le> (of_int n - of_int n / 2 ^ 25) * (1 + 1 / 2 ^ 24) * (1 + 1 / 2 ^ 53)"
      using p_hi by (intro mult_right_mono) simp_all
    also have "\<dots> = of_int n * ((1 - 1 / 2 ^ 25) * (1 + 1 / 2 ^ 24) * (1 + 1 / 2 ^ 53))"
      by (simp add: field_simps)
    also have "\<dots> < of_int n * (1 + 1 / 2 ^ 25)"
      using n1' by (intro mult_strict_left_mono) simp_all
    also have "\<dots> = of_int n + of_int n / 2 ^ 25" by (simp add: field_simps)
    also have "\<dots> \<le> of_int n + 1/2" using rn(2) by simp
    finally show ?thesis .
  qed
  show "2 ^ 23 \<le> n \<Longrightarrow> center \<le> of_int n"
    unfolding ce using n1 dp by (intro ieee_float_below_half)
  show "center \<le> of_int n + 1/2"
  proof (cases "2 ^ 23 \<le> n")
    case True
    then have "center \<le> of_int n" unfolding ce using n1 dp by (intro ieee_float_below_half)
    then show ?thesis by simp
  next
    case False
    then have lt: "n < 2 ^ 23" by simp
    have "center \<le> round_to 24 (- 149) (of_int n + 1/2)"
      unfolding ce using dp rn by (intro ieee_mono) simp_all
    then show ?thesis by (simp add: ieee_float_half[OF n0 lt])
  qed
qed

lemma planned_window_binary32:
  assumes s: "1/2 \<le> support filterp"
    and n0: "0 \<le> in_xsize" and n1: "in_xsize \<le> 2 ^ 24"
    and m0: "1 \<le> out_xsize" and m1: "out_xsize \<le> 2 ^ 24"
    and x0: "0 \<le> xx" and x1: "xx < out_xsize"
  defines "scale \<equiv> stretch_scale ieee_fpu in_xsize out_xsize"
  defines "supp \<equiv> stretch_support ieee_fpu filterp (stretch_filterscale scale)"
  defines "center \<equiv>
     to_float ieee_fpu (to_double ieee_fpu (to_double ieee_fpu (of_int xx + 1/2) * scale))"
  defines "c \<equiv> plan_step ieee_fpu filterp scale (stretch_filterscale scale) supp in_xsize xx"
  shows "c_xmin c = of_int (max 0 \<lfloor>to_float ieee_fpu (center - supp)\<rfloor>)"
    and "c_xmax c = of_int (min in_xsize \<lceil>to_float ieee_fpu (center + supp)\<rceil>)"
    and "0 \<le> c_xmin c" and "c_xmin c \<le> c_xmax c" and "c_xmax c \<le> of_int in_xsize"
proof -
  have Fn: "round_to 24 (- 149) (of_int in_xsize) = of_int in_xsize"
    using n0 n1 by (intro ieee_float_int) simp
  have Fm: "round_to 24 (- 149) (of_int out_xsize) = of_int out_xsize"
    using m0 m1 by (intro ieee_float_int) simp
  have sc: "scale = round_to 24 (- 149) (of_int in_xsize / of_int out_xsize)"
    by (simp add: scale_def stretch_scale_def Fn Fm)
  have ce: "center = round_to 24 (- 149) (round_to 53 (- 1074)
      (round_to 53 (- 1074) (of_int xx + 1/2)
         * round_to 24 (- 149) (of_int in_xsize / of_int out_xsize)))"
    by (simp add: center_def sc)
  note cb = binary32_center_bound[OF n0 n1 m0 m1 x0 x1, folded ce]
  have fs: "1 \<le> stretch_filterscale scale" by (simp add: stretch_filterscale_def)
  have "1/2 * 1 \<le> support filterp * stretch_filterscale scale"
    using s fs by (intro mult_mono) simp_all
  then have sf: "1/2 \<le> support filterp * stretch_filterscale scale" by simp
  have "round_to 24 (- 149) (1/2) \<le> supp"
    unfolding supp_def stretch_support_def ieee_sel using sf by (intro ieee_mono) simp_all
  then have sp: "1/2 \<le> supp" by (simp only: ieee_float_small)
  have key: "center - supp \<le> of_int in_xsize"
  proof (cases "2 ^ 23 \<le> in_xsize")
    case True
    then show ?thesis using cb(4) sp by simp
  next
    case False
    then show ?thesis using cb(3) sp by simp
  qed
  define k where "k = \<lfloor>round_to 24 (- 149) (center - supp)\<rfloor>"
  define k' where "k' = \<lceil>round_to 24 (- 149) (center + supp)\<rceil>"
  have rn: "(0::real) \<le> of_int in_xsize" using n0 by simp
  have "round_to 24 (- 149) (center - supp) \<le> round_to 24 (- 149) (of_int in_xsize)"
    using key rn by (intro ieee_mono)
  then have kn: "k \<le> in_xsize" unfolding Fn k_def by linarith
  have pos: "0 \<le> center + supp" using cb(2) sp by simp
  have "round_to 24 (- 149) (center - supp) \<le> round_to 24 (- 149) (center + supp)"
    using sp pos by (intro ieee_mono) simp_all
  then have kk: "k \<le> k'" unfolding k_def k'_def by linarith
  have "0 \<le> round_to 24 (- 149) (center + supp)" using pos by (rule round_to_nonneg)
  then have k0: "0 \<le> k'" unfolding k'_def by linarith
  have lo: "c_xmin c = (if round_to 24 (- 149) (of_int k) < 0 then 0
                        else round_to 24 (- 149) (of_int k))"
    by (simp add: c_def plan_step_def Let_def center_def k_def)
  have hi: "c_xmax c = (if round_to 24 (- 149) (of_int k') > of_int in_xsize then of_int in_xsize
                        else round_to 24 (- 149) (of_int k'))"
    by (simp add: c_def plan_step_def Let_def center_def k'_def Fn)
  have a: "c_xmin c = of_int (max 0 k)"
  proof (cases "0 \<le> k")
    case True
    then have "round_to 24 (- 149) (of_int k) = of_int k"
      using kn n1 by (intro ieee_float_int) simp
    then show ?thesis using True by (simp add: lo max_def)
  next
    case False
    then have "round_to 24 (- 149) (of_int k) \<le> 0" by (intro round_to_nonpos) simp
    then show ?thesis using False by (simp add: lo max_def)
  qed
  have b: "c_xmax c = of_int (min in_xsize k')"
  proof (cases "k' \<le> 2 ^ 24")
    case True
    then have "round_to 24 (- 149) (of_int k') = of_int k'"
      using k0 by (intro ieee_float_int) simp
    then show ?thesis by (simp add: hi min_def)
  next
    case False
    then have "(2::real) ^ 24 \<le> of_int k'" by (metis numeral_power_le_of_int_cancel_iff linear)
    then have "round_to 24 (- 149) (2 ^ 24) \<le> round_to 24 (- 149) (of_int k')"
      by (intro ieee_mono) simp_all
    then have "of_int in_xsize \<le> round_to 24 (- 149) (of_int k')"
      using n1 round_to_2_24(1) by (simp add: order_trans[of "of_int in_xsize" "2 ^ 24"])
    then show ?thesis using False n1 by (simp add: hi min_def)
  qed
  show "c_xmin c = of_int (max 0 \<lfloor>to_float ieee_fpu (center - supp)\<rfloor>)"
    using a by (simp add: k_def)
  show "c_xmax c = of_int (min in_xsize \<lceil>to_float ieee_fpu (center + supp)\<rceil>)"
    using b by (simp add: k'_def)
  show "0 \<le> c_xmin c" by (simp add: a)
  show "c_xmin c \<le> c_xmax c" using kn kk k0 n0 by (simp add: a b)
  show "c_xmax c \<le> of_int in_xsize" by (simp add: b)
qed

text \<open>The roundings that occur in the examples below.\<close>

lemma window_roundings:
  "round_to 24 (- 149) (- 1) = - 1" "round_to 24 (- 149) 1 = 1"
  "round_to 24 (- 149) 2 = 2" "round_to 24 (- 149) 3 = 3" "round_to 24 (- 149) 4 = 4"
  "round_to 24 (- 149) 5 = 5" "round_to 24 (- 149) 7 = 7" "round_to 24 (- 149) 8 = 8"
  "round_to 24 (- 149) 9 = 9"
  "round_to 53 (- 1074) (1/2) = 1/2" "round_to 53 (- 1074) 1 = 1"
  "round_to 53 (- 1074) (7/2) = 7/2" "round_to 53 (- 1074) 7 = 7"
  by (simp_all add: round_eval)

lemma wide_roundings:
  "round_to 24 (- 149) 16777219 = 16777220"
  "round_to 24 (- 149) 16777220 = 16777220"
  "round_to 24 (- 149) (33554437 / 2) = 16777218"
  "round_to 53 (- 1074) (33554437 / 2) = 33554437 / 2"
  by (simp_all add: round_eval)

lemma long_roundings:
  "round_to 24 (- 149) 12832821 = 12832821"
  "round_to 24 (- 149) 16777229 = 16777228"
  "round_to 24 (- 149) (12832821 / 16777228) = 3208203 / 4194304"
  "round_to 24 (- 149) (1/2) = 1/2"
  "round_to 53 (- 1074) (33554457 / 2) = 33554457 / 2"
  "round_to 53 (- 1074) (107649509610771 / 8388608) = 107649509610771 / 8388608"
  "round_to 24 (- 149) (107649509610771 / 8388608) = 12832822"
  "round_to 24 (- 149) (25665643 / 2) = 12832822"
  "round_to 24 (- 149) (25665645 / 2) = 12832822"
  "round_to 24 (- 149) 12832822 = 12832822"
  by (simp_all add: round_eval)




text \<open>
  The bound on the destination length cannot be dropped either. With the Nearest filter,
  a source of length 12832821 and a destination of length 16777229, the centre of the
  last column is rounded up to 12832822, and the planning pass stores
  \<open>xmin = 12832822\<close> above \<open>xmax = 12832821\<close>: the window is empty.
\<close>

lemma long_destination_window:
  "stretch_scale ieee_fpu 12832821 16777229 = 3208203 / 4194304
   \<and> stretch_filterscale (3208203 / 4194304) = 1
   \<and> stretch_support ieee_fpu (NEAREST ieee_fpu) 1 = 1/2
   \<and> c_xmin (plan_step ieee_fpu (NEAREST ieee_fpu) (3208203 / 4194304) 1 (1/2)
               12832821 16777228) = 12832822
   \<and> c_xmax (plan_step ieee_fpu (NEAREST ieee_fpu) (3208203 / 4194304) 1 (1/2)
               12832821 16777228) = 12832821"
  by (simp add: stretch_scale_def stretch_filterscale_def stretch_support_def NEAREST_def
        plan_step_def Let_def long_roundings)

subsection \<open>A row of eight reduced to four\<close>

text \<open>The roundings that occur in the example.\<close>

lemma ieee_roundings:
  "round_to 24 (- 149) (- 2) = (- 2)"
  "round_to 24 (- 149) (- 1) = (- 1)"
  "round_to 24 (- 149) (- (3 / 4)) = (- (3 / 4))"
  "round_to 24 (- 149) (- (1 / 4)) = (- (1 / 4))"
  "round_to 24 (- 149) 0 = 0"
  "round_to 24 (- 149) (1 / 8) = 1 / 8"
  "round_to 24 (- 149) (1 / 4) = 1 / 4"
  "round_to 24 (- 149) (3 / 8) = 3 / 8"
  "round_to 24 (- 149) (1 / 2) = 1 / 2"
  "round_to 24 (- 149) (3 / 4) = 3 / 4"
  "round_to 24 (- 149) (7 / 8) = 7 / 8"
  "round_to 24 (- 149) 1 = 1"
  "round_to 24 (- 149) (2573485501354569 / 2251799813685248) = 9586981 / 8388608"
  "round_to 24 (- 149) 2 = 2"
  "round_to 24 (- 149) (5 / 2) = 5 / 2"
  "round_to 24 (- 149) 3 = 3"
  "round_to 24 (- 149) (15 / 4) = 15 / 4"
  "round_to 24 (- 149) 4 = 4"
  "round_to 24 (- 149) 5 = 5"
  "round_to 24 (- 149) 6 = 6"
  "round_to 24 (- 149) (25 / 4) = 25 / 4"
  "round_to 24 (- 149) 7 = 7"
  "round_to 24 (- 149) (15 / 2) = 15 / 2"
  "round_to 24 (- 149) 8 = 8"
  "round_to 24 (- 149) (35 / 4) = 35 / 4"
  "round_to 24 (- 149) 9 = 9"
  "round_to 24 (- 149) 10 = 10"
  "round_to 24 (- 149) (45 / 4) = 45 / 4"
  "round_to 24 (- 149) (55 / 4) = 55 / 4"
  "round_to 24 (- 149) 15 = 15"
  "round_to 24 (- 149) (143804715 / 8388608) = 8987795 / 524288"
  "round_to 24 (- 149) (9249939 / 524288) = 9249939 / 524288"
  "round_to 24 (- 149) (75 / 4) = 75 / 4"
  "round_to 24 (- 149) 20 = 20"
  "round_to 24 (- 149) (45 / 2) = 45 / 2"
  "round_to 24 (- 149) (95 / 4) = 95 / 4"
  "round_to 24 (- 149) (105 / 4) = 105 / 4"
  "round_to 24 (- 149) (115 / 4) = 115 / 4"
  "round_to 24 (- 149) 30 = 30"
  "round_to 24 (- 149) (135 / 4) = 135 / 4"
  "round_to 24 (- 149) 35 = 35"
  "round_to 24 (- 149) (71 / 2) = 71 / 2"
  "round_to 24 (- 149) 40 = 40"
  "round_to 24 (- 149) (185 / 4) = 185 / 4"
  "round_to 24 (- 149) 50 = 50"
  "round_to 24 (- 149) 55 = 55"
  "round_to 24 (- 149) (111 / 2) = 111 / 2"
  "round_to 24 (- 149) 60 = 60"
  "round_to 24 (- 149) (255 / 4) = 255 / 4"
  "round_to 24 (- 149) 70 = 70"
  "round_to 24 (- 149) (2444680155 / 33554432) = 2387383 / 32768"
  "round_to 24 (- 149) (2403767 / 32768) = 2403767 / 32768"
  "round_to 24 (- 149) 80 = 80"
  "round_to 53 (- 1074) (- (3 / 2)) = (- (3 / 2))"
  "round_to 53 (- 1074) (- (3 / 4)) = (- (3 / 4))"
  "round_to 53 (- 1074) (- (1 / 2)) = (- (1 / 2))"
  "round_to 53 (- 1074) (- (1 / 4)) = (- (1 / 4))"
  "round_to 53 (- 1074) (1 / 4) = 1 / 4"
  "round_to 53 (- 1074) (1 / 2) = 1 / 2"
  "round_to 53 (- 1074) (3 / 4) = 3 / 4"
  "round_to 53 (- 1074) 1 = 1"
  "round_to 53 (- 1074) (8 / 7) = 2573485501354569 / 2251799813685248"
  "round_to 53 (- 1074) (3 / 2) = 3 / 2"
  "round_to 53 (- 1074) (5 / 2) = 5 / 2"
  "round_to 53 (- 1074) 3 = 3"
  "round_to 53 (- 1074) (7 / 2) = 7 / 2"
  "round_to 53 (- 1074) 5 = 5"
  "round_to 53 (- 1074) 7 = 7"
  "round_to 53 (- 1074) (9249939 / 524288) = 9249939 / 524288"
  "round_to 53 (- 1074) (71 / 2) = 71 / 2"
  "round_to 53 (- 1074) (111 / 2) = 111 / 2"
  "round_to 53 (- 1074) (2403767 / 32768) = 2403767 / 32768"
  by (simp_all add: round_eval)


lemma row8_bilinear_ieee:
  "ImagingStretchHorizaontal ieee_fpu (\<lambda>n. True) (Some (image_L [[0, 0, 0, 0]]))
     (Some (image_L [[10, 20, 30, 40, 50, 60, 70, 80]])) IMAGING_TRANSFORM_BILINEAR
   = Inr ((image_L [[0, 0, 0, 0]])\<lparr>image8 := Some [[17, 35, 55, 73]]\<rparr>)"
  by (simp add: eval_call stretch8_def sum8_def ieee_roundings)

lemma row8_bilinear_exact:
  "ImagingStretchHorizaontal exact_fpu (\<lambda>n. True) (Some (image_L [[0, 0, 0, 0]]))
     (Some (image_L [[10, 20, 30, 40, 50, 60, 70, 80]])) IMAGING_TRANSFORM_BILINEAR
   = Inr ((image_L [[0, 0, 0, 0]])\<lparr>image8 := Some [[17, 35, 55, 73]]\<rparr>)"
  by (simp add: eval_call stretch8_def sum8_def)

text \<open>
  Claim C6, as amended. The 8-bit row \<open>[10, 20, 30, 40, 50, 60, 70, 80]\<close> reduced to
  width 4 with the Bilinear filter gives \<open>[17, 35, 55, 73]\<close>, with binary32 and binary64
  rounding as well as in exact arithmetic: the two inner values are 35 and 55, and the
  two border values, whose windows are cut at the ends of the row and renormalised, are
  17 and 73.
\<close>

theorem bilinear_8_to_4:
  "(\<exists>imOut'. ImagingStretchHorizaontal ieee_fpu (\<lambda>n. True) (Some (image_L [[0, 0, 0, 0]]))
       (Some (image_L [[10, 20, 30, 40, 50, 60, 70, 80]])) IMAGING_TRANSFORM_BILINEAR = Inr imOut'
     \<and> image8 imOut' = Some [[17, 35, 55, 73]])
   \<and> (\<exists>imOut'. ImagingStretchHorizaontal exact_fpu (\<lambda>n. True) (Some (image_L [[0, 0, 0, 0]]))
       (Some (image_L [[10, 20, 30, 40, 50, 60, 70, 80]])) IMAGING_TRANSFORM_BILINEAR = Inr imOut'
     \<and> image8 imOut' = Some [[17, 35, 55, 73]])"
  by (simp add: row8_bilinear_ieee row8_bilinear_exact)

text \<open>
  The claim as stated: the first and the last value are 2 away from 15 and 75, more than
  the rounding of an 8-bit value accounts for.
\<close>

theorem bilinear_8_to_4_counterexample:
  "ImagingStretchHorizaontal ieee_fpu (\<lambda>n. True) (Some (image_L [[0, 0, 0, 0]]))
     (Some (image_L [[10, 20, 30, 40, 50, 60, 70, 80]])) IMAGING_TRANSFORM_BILINEAR
   = Inr ((image_L [[0, 0, 0, 0]])\<lparr>image8 := Some [[17, 35, 55, 73]]\<rparr>)
   \<and> \<bar>uint (17 :: 8 word) - 15\<bar> = 2 \<and> \<bar>uint (73 :: 8 word) - 75\<bar> = 2"
  by (simp add: row8_bilinear_ieee)

subsection \<open>Values that the rounding leaves alone\<close>

lemma halves_rep:
  "halves_exact fp n \<Longrightarrow> - 1 \<le> k \<Longrightarrow> k \<le> n \<Longrightarrow> representable fp (of_int k / 2)"
  by (simp add: halves_exact_def)

lemma halves_int:
  assumes "halves_exact fp n" and "0 \<le> m" and "2 * m \<le> n"
  shows "to_float fp (of_int m) = of_int m" and "to_double fp (of_int m) = of_int m"
proof -
  have r: "representable fp (of_int (2 * m) / 2)"
    using assms by (intro halves_rep[OF assms(1)]) simp_all
  have e: "(of_int (2 * m) / 2 :: real) = of_int m" by simp
  show "to_float fp (of_int m) = of_int m" and "to_double fp (of_int m) = of_int m"
    using r[unfolded e representable_def] by simp_all
qed

lemma halves_half:
  assumes "halves_exact fp n" and "0 \<le> m" and "2 * m + 1 \<le> n"
  shows "to_float fp (of_int m + 1/2) = of_int m + 1/2"
    and "to_double fp (of_int m + 1/2) = of_int m + 1/2"
proof -
  have r: "representable fp (of_int (2 * m + 1) / 2)"
    using assms by (intro halves_rep[OF assms(1)]) simp_all
  have e: "(of_int (2 * m + 1) / 2 :: real) = of_int m + 1/2" by (simp add: field_simps)
  show "to_float fp (of_int m + 1/2) = of_int m + 1/2"
    and "to_double fp (of_int m + 1/2) = of_int m + 1/2"
    using r[unfolded e representable_def] by simp_all
qed

lemma halves_consts:
  assumes "halves_exact fp n" and "2 \<le> n"
  shows "to_float fp 0 = 0" "to_double fp 0 = 0" "to_float fp 1 = 1" "to_double fp 1 = 1"
    "to_float fp (1/2) = 1/2" "to_double fp (1/2) = 1/2" "to_float fp (- (1/2)) = - (1/2)"
  using halves_rep[OF assms(1), of 0] halves_rep[OF assms(1), of 1]
    halves_rep[OF assms(1), of 2] halves_rep[OF assms(1), of "- 1"] assms(2)
  by (simp_all add: representable_def)

lemma nearest_coeffs:
  assumes h: "halves_exact fp n" and n: "2 * xsize imIn + 2 \<le> n"
    and w: "xsize imOut = xsize imIn" and x0: "0 \<le> xx" and x1: "xx < xsize imIn"
  shows "column_coeffs fp (NEAREST fp) imIn imOut xx
       = \<lparr>c_xmin = of_int xx, c_xmax = of_int xx + 1, c_ww = 1, c_k = [1]\<rparr>"
proof -
  have n2: "2 \<le> n" using n x0 x1 by linarith
  note c = halves_consts[OF h n2]
  have W: "to_float fp (of_int (xsize imIn)) = of_int (xsize imIn)"
    using halves_int(1)[OF h, of "xsize imIn"] n x0 x1 by simp
  have pos: "0 < xsize imIn" using x0 x1 by linarith
  have sc: "stretch_scale fp (xsize imIn) (xsize imOut) = 1"
    using pos by (simp add: stretch_scale_def w W c)
  have fs: "stretch_filterscale 1 = 1" by (simp add: stretch_filterscale_def)
  have sp: "stretch_support fp (NEAREST fp) 1 = 1/2"
    by (simp add: stretch_support_def NEAREST_def c)
  have X: "to_float fp (of_int xx) = of_int xx"
    using halves_int(1)[OF h, of xx] n x0 x1 by simp
  have X1: "to_float fp (of_int xx + 1) = of_int xx + 1"
    using halves_int(1)[OF h, of "xx + 1"] n x0 x1 by simp
  have X1': "to_float fp (1 + of_int xx) = 1 + of_int xx"
    using X1 by (simp add: add.commute)
  have Xh: "to_float fp (of_int xx + 1/2) = of_int xx + 1/2"
      "to_double fp (of_int xx + 1/2) = of_int xx + 1/2"
    using halves_half[OF h, of xx] n x0 x1 by simp_all
  have win: "window (of_int xx) (of_int xx + 1) = [xx]"
  proof -
    have "c_int (of_int xx) = xx" using x0 by (simp add: c_int_def)
    moreover have "c_int (of_int xx + 1) = xx + 1" using x0 by (simp add: c_int_def)
    ultimately show ?thesis by (simp add: window_def upto.simps)
  qed
  have wt: "weight fp (NEAREST fp) (of_int xx + 1/2) 1 xx = 1"
    by (simp add: weight_def X c NEAREST_def nearest_filter_def)
  have le: "\<not> of_int xx + 1 > (of_int (xsize imIn) :: real)"
    using x1 by linarith
  have ge: "\<not> (of_int xx :: real) < 0" using x0 by simp
  show ?thesis
    unfolding column_coeffs_def Let_def sc fs sp stretch_step_def
    using x0 by (simp add: c Xh X X1 X1' W le ge win wt add.commute[of 1 "of_int xx :: real"])
qed


subsection \<open>The Nearest filter at equal widths\<close>

lemma nearest_k_at:
  assumes "0 \<le> xx"
  shows "k_at \<lparr>c_xmin = of_int xx, c_xmax = of_int xx + 1, c_ww = 1, c_k = [1]\<rparr> xx = 1"
  using assms by (simp add: k_at_def c_int_def)

lemma nearest_window:
  assumes "0 \<le> xx"
  shows "window (of_int xx) (of_int xx + 1) = [xx]"
proof -
  have "c_int (of_int xx) = xx" using assms by (simp add: c_int_def)
  moreover have "c_int (of_int xx + 1) = xx + 1" using assms by (simp add: c_int_def)
  ultimately show ?thesis by (simp add: window_def upto.simps)
qed

lemma select_nearest: "select_filter fp IMAGING_TRANSFORM_NEAREST = Some (NEAREST fp)"
  by (simp add: select_filter_def)

lemma nearest_pixel8:
  assumes h: "halves_exact fp n" and n: "511 \<le> n" and x: "0 \<le> xx"
  shows "clip8 (bias fp (sum8 fp row
           \<lparr>c_xmin = of_int xx, c_xmax = of_int xx + 1, c_ww = 1, c_k = [1]\<rparr>) 1)
       = row ! nat xx"
proof -
  define p where "p = uint (row ! nat xx)"
  have p: "0 \<le> p" "p \<le> 255"
    using uint_lt2p[of "row ! nat xx"] by (simp_all add: p_def)
  have n2: "2 \<le> n" using n by simp
  note c = halves_consts[OF h n2]
  have P: "to_float fp (of_int p) = of_int p"
    using halves_int(1)[OF h, of p] p n by simp
  have Ph: "to_float fp (of_int p + 1/2) = of_int p + 1/2"
      "to_double fp (of_int p + 1/2) = of_int p + 1/2"
    using halves_half[OF h, of p] p n by simp_all
  have s: "sum8 fp row \<lparr>c_xmin = of_int xx, c_xmax = of_int xx + 1, c_ww = 1, c_k = [1]\<rparr>
         = of_int p"
    by (simp add: sum8_def nearest_window[OF x] nearest_k_at[OF x] P[unfolded p_def, simplified] c p_def)
  have b: "bias fp (of_int p) 1 = of_int p + 1/2"
    by (simp add: bias_def P Ph)
  have fl: "\<lfloor>real_of_int p + 1/2\<rfloor> = p" by linarith
  have "clip8 (of_int p + 1/2) = word_of_int p"
  proof (cases "p = 255")
    case True
    then show ?thesis by (simp add: clip8_def)
  next
    case False
    then have "real_of_int p + 1/2 < 255" using p by linarith
    moreover have "\<not> real_of_int p + 1/2 < 1/2" using p by simp
    ultimately show ?thesis using p by (simp add: clip8_def c_int_def fl)
  qed
  then show ?thesis unfolding s b by (simp add: p_def)
qed

lemma nearest_pixel32:
  assumes h: "halves_exact fp n" and n: "2 \<le> n" and x: "0 \<le> xx"
    and r: "representable fp (of_int (sint (row ! nat xx)))"
  shows "store32 fp (sum32 fp row
           \<lparr>c_xmin = of_int xx, c_xmax = of_int xx + 1, c_ww = 1, c_k = [1]\<rparr>) 1
       = row ! nat xx"
proof -
  note c = halves_consts[OF h n]
  have P: "to_float fp (of_int (sint (row ! nat xx))) = of_int (sint (row ! nat xx))"
    using r by (simp add: representable_def)
  have s: "sum32 fp row \<lparr>c_xmin = of_int xx, c_xmax = of_int xx + 1, c_ww = 1, c_k = [1]\<rparr>
         = of_int (sint (row ! nat xx))"
    by (simp add: sum32_def nearest_window[OF x] nearest_k_at[OF x] P[simplified] c)
  have b: "- 2147483648 \<le> sint (row ! nat xx)" "sint (row ! nat xx) < 2147483648"
    using sint_ge[of "row ! nat xx"] sint_lt[of "row ! nat xx"] by simp_all
  have "c_int32 (of_int z) = z" if "- 2147483648 \<le> z" "z < 2147483648" for z
    using that by (simp add: c_int32_def int_range_def c_int_def)
  note ci = this[OF b]
  have "store32 fp (of_int (sint (row ! nat xx))) 1 = word_of_int (sint (row ! nat xx))"
    by (simp only: store32_def ci P mult_1_right)
  then show ?thesis unfolding s by simp
qed

lemma nearest_pixel32f:
  assumes h: "halves_exact fp n" and n: "2 \<le> n" and x: "0 \<le> xx"
    and r: "representable fp (row ! nat xx)"
  shows "to_float fp (sum32f fp row
           \<lparr>c_xmin = of_int xx, c_xmax = of_int xx + 1, c_ww = 1, c_k = [1]\<rparr> * 1)
       = row ! nat xx"
proof -
  note c = halves_consts[OF h n]
  have P: "to_float fp (row ! nat xx) = row ! nat xx"
    using r by (simp add: representable_def)
  have s: "sum32f fp row \<lparr>c_xmin = of_int xx, c_xmax = of_int xx + 1, c_ww = 1, c_k = [1]\<rparr>
         = row ! nat xx"
    by (simp add: sum32f_def nearest_window[OF x] nearest_k_at[OF x] P c)
  show ?thesis by (simp add: s P)
qed

lemma ieee_consts:
  "round_to 24 (- 149) 1 = 1" "round_to 24 (- 149) 16777216 = 16777216"
  using ieee_int_representable[of 1] ieee_int_representable[of 16777216]
  by (simp_all add: representable_def)

lemma image_I_sel:
  "mode (image_I r) = ''I''" "xsize (image_I r) = int (length (hd r))"
  "ysize (image_I r) = int (length r)" "image8 (image_I r) = None"
  "type (image_I r) = IMAGING_TYPE_INT32" "image32 (image_I r) = r"
  by (simp_all add: image_I_def header_def)

text \<open>
  Claim C1, as stated, fails for INT32 pixels: with binary32 arithmetic the weighted sum
  is accumulated in a \<^verbatim>\<open>float\<close>, and a 1 by 1 image with the pixel 16777217, stretched
  to the same size with the Nearest filter, comes out as 16777216.
\<close>

theorem nearest_identity_int32_counterexample:
  "ImagingStretchHorizaontal ieee_fpu (\<lambda>n. True) (Some (image_I [[0]]))
     (Some (image_I [[16777217]])) IMAGING_TRANSFORM_NEAREST
   = Inr ((image_I [[0]])\<lparr>image32 := [[16777216]]\<rparr>)
   \<and> (16777216 :: 32 word) \<noteq> 16777217"
proof -
  have cc: "column_coeffs ieee_fpu (NEAREST ieee_fpu) (image_I [[16777217]]) (image_I [[0]]) 0
      = \<lparr>c_xmin = 0, c_xmax = 1, c_ww = 1, c_k = [1]\<rparr>"
    using nearest_coeffs[OF ieee_halves_exact, of "image_I [[16777217]]" "image_I [[0]]" 0]
    by (simp add: image_I_sel)
  have "ImagingStretchHorizaontal ieee_fpu (\<lambda>n. True) (Some (image_I [[0]]))
     (Some (image_I [[16777217]])) IMAGING_TRANSFORM_NEAREST
     = Inr ((image_I [[0]])\<lparr>image32 :=
        fold (\<lambda>xx. stretch32 ieee_fpu (image32 (image_I [[16777217]]))
                     (column_coeffs ieee_fpu (NEAREST ieee_fpu) (image_I [[16777217]]) (image_I [[0]]) xx)
                     (ysize (image_I [[0]])) xx)
           [0 .. xsize (image_I [[0]]) - 1] (image32 (image_I [[0]]))\<rparr>)"
    by (rule stretch_image32[OF _ _ select_nearest]) (simp_all add: image_I_sel)
  also have "\<dots> = Inr ((image_I [[0]])\<lparr>image32 := [[16777216]]\<rparr>)"
    by (simp add: image_I_sel upto_eval cc stretch32_def sum32_def
          store32_def c_int32_def int_range_def window_def c_int_def k_at_def put_def
          round_to_2_24 ieee_consts)
  finally show ?thesis by simp
qed

text \<open>
  Claim C1, as amended. Let the float format represent exactly the half-integers from
  \<open>- 1/2\<close> up to \<open>n / 2\<close>, where \<open>n\<close> is at least 511 and at least twice the width plus 2
  (binary32 and binary64 do so up to \<open>n = 2 ^ 24\<close>, and exact arithmetic for every \<open>n\<close>).
  Then \<open>ImagingStretchHorizaontal\<close> with the Nearest filter and a destination of the
  same mode, height and width copies every pixel of an 8-bit plane, every FLOAT32 pixel
  whose value is represented exactly, and every INT32 pixel whose value is represented
  exactly (in binary32, every value of magnitude up to \<open>2 ^ 24\<close>).
\<close>

theorem nearest_identity:
  assumes "mode imIn = mode imOut" and "ysize imOut = ysize imIn"
    and "xsize imOut = xsize imIn" and "\<And>n. malloc_ok n"
    and "halves_exact fp n" and "2 * xsize imIn + 2 \<le> n" and "511 \<le> n"
    and "int xx < xsize imOut" and "int yy < ysize imOut"
  shows "(\<forall>src dst. image8 imIn = Some src \<and> image8 imOut = Some dst
            \<and> yy < length dst \<and> xx < length (dst ! yy) \<longrightarrow>
            (\<exists>imOut' dst'.
               ImagingStretchHorizaontal fp malloc_ok (Some imOut) (Some imIn)
                 IMAGING_TRANSFORM_NEAREST = Inr imOut'
               \<and> image8 imOut' = Some dst' \<and> dst' ! yy ! xx = src ! yy ! xx))
       \<and> (image8 imIn = None \<and> type imIn = IMAGING_TYPE_INT32
            \<and> yy < length (image32 imOut) \<and> xx < length (image32 imOut ! yy)
            \<and> representable fp (of_int (sint (image32 imIn ! yy ! xx))) \<longrightarrow>
            (\<exists>imOut'.
               ImagingStretchHorizaontal fp malloc_ok (Some imOut) (Some imIn)
                 IMAGING_TRANSFORM_NEAREST = Inr imOut'
               \<and> image32 imOut' ! yy ! xx = image32 imIn ! yy ! xx))
       \<and> (image8 imIn = None \<and> type imIn = IMAGING_TYPE_FLOAT32
            \<and> yy < length (image32f imOut) \<and> xx < length (image32f imOut ! yy)
            \<and> representable fp (image32f imIn ! yy ! xx) \<longrightarrow>
            (\<exists>imOut'.
               ImagingStretchHorizaontal fp malloc_ok (Some imOut) (Some imIn)
                 IMAGING_TRANSFORM_NEAREST = Inr imOut'
               \<and> image32f imOut' ! yy ! xx = image32f imIn ! yy ! xx))"
proof -
  have x: "0 \<le> int xx" "int xx < xsize imIn" using assms(3,8) by simp_all
  have n2: "2 \<le> n" using assms(7) by simp
  have cc: "column_coeffs fp (NEAREST fp) imIn imOut (int xx)
       = \<lparr>c_xmin = of_int (int xx), c_xmax = of_int (int xx) + 1, c_ww = 1, c_k = [1]\<rparr>"
    by (rule nearest_coeffs[OF assms(5,6,3) x])
  note reach = assms(1,2) select_nearest assms(4)
  show ?thesis
  proof (intro conjI allI impI)
    fix src dst
    assume a: "image8 imIn = Some src \<and> image8 imOut = Some dst
            \<and> yy < length dst \<and> xx < length (dst ! yy)"
    then have s: "image8 imIn = Some src" by simp
    show "\<exists>imOut' dst'.
               ImagingStretchHorizaontal fp malloc_ok (Some imOut) (Some imIn)
                 IMAGING_TRANSFORM_NEAREST = Inr imOut'
               \<and> image8 imOut' = Some dst' \<and> dst' ! yy ! xx = src ! yy ! xx"
      unfolding stretch_image8[OF reach s] using a assms(8,9)
      by (simp add: pixel8 cc nearest_pixel8[OF assms(5,7) x(1), simplified])
  next
    assume a: "image8 imIn = None \<and> type imIn = IMAGING_TYPE_INT32
            \<and> yy < length (image32 imOut) \<and> xx < length (image32 imOut ! yy)
            \<and> representable fp (of_int (sint (image32 imIn ! yy ! xx)))"
    then have s: "image8 imIn = None" "type imIn = IMAGING_TYPE_INT32" by simp_all
    have r: "representable fp (of_int (sint (image32 imIn ! yy ! nat (int xx))))"
      using a by simp
    show "\<exists>imOut'.
               ImagingStretchHorizaontal fp malloc_ok (Some imOut) (Some imIn)
                 IMAGING_TRANSFORM_NEAREST = Inr imOut'
               \<and> image32 imOut' ! yy ! xx = image32 imIn ! yy ! xx"
      unfolding stretch_image32[OF reach s] using a assms(8,9)
      by (simp add: pixel32 cc nearest_pixel32[OF assms(5) n2 x(1) r, simplified])
  next
    assume a: "image8 imIn = None \<and> type imIn = IMAGING_TYPE_FLOAT32
            \<and> yy < length (image32f imOut) \<and> xx < length (image32f imOut ! yy)
            \<and> representable fp (image32f imIn ! yy ! xx)"
    then have s: "image8 imIn = None" "type imIn = IMAGING_TYPE_FLOAT32" by simp_all
    have r: "representable fp (image32f imIn ! yy ! nat (int xx))"
      using a by simp
    show "\<exists>imOut'.
               ImagingStretchHorizaontal fp malloc_ok (Some imOut) (Some imIn)
                 IMAGING_TRANSFORM_NEAREST = Inr imOut'
               \<and> image32f imOut' ! yy ! xx = image32f imIn ! yy ! xx"
      unfolding stretch_image32f[OF reach s] using a assms(8,9)
      by (simp add: pixel32f cc nearest_pixel32f[OF assms(5) n2 x(1) r, simplified])
  qed
qed

theorem nearest_identity_witness:
  "\<exists>imOut'. ImagingStretchHorizaontal ieee_fpu (\<lambda>n. True) (Some (image_I [[0, 0]]))
       (Some (image_I [[16777216, - 7]])) IMAGING_TRANSFORM_NEAREST = Inr imOut'
     \<and> image32 imOut' ! 0 ! 0 = 16777216"
proof -
  have r: "representable ieee_fpu (of_int (sint (image32 (image_I [[16777216, - 7]]) ! 0 ! 0)))"
    using ieee_int_representable[of 16777216] by (simp add: image_I_def header_def)
  from nearest_identity [of "image_I [[16777216, - 7]]" "image_I [[0, 0]]" "\<lambda>n. True" ieee_fpu
      "2 ^ 24" 0 0, OF _ _ _ _ ieee_halves_exact]
  have "image8 (image_I [[16777216, - 7]]) = None \<and> type (image_I [[16777216, - 7]]) = IMAGING_TYPE_INT32
            \<and> 0 < length (image32 (image_I [[0, 0]])) \<and> 0 < length (image32 (image_I [[0, 0]]) ! 0)
            \<and> representable ieee_fpu (of_int (sint (image32 (image_I [[16777216, - 7]]) ! 0 ! 0))) \<longrightarrow>
            (\<exists>imOut'.
               ImagingStretchHorizaontal ieee_fpu (\<lambda>n. True) (Some (image_I [[0, 0]]))
                 (Some (image_I [[16777216, - 7]])) IMAGING_TRANSFORM_NEAREST = Inr imOut'
               \<and> image32 imOut' ! 0 ! 0 = image32 (image_I [[16777216, - 7]]) ! 0 ! 0)"
    by (simp add: image_I_def header_def)
  then show ?thesis using r by (simp add: image_I_def header_def)
qed

end
